theory Spec2Isabelle
  imports Complex_Main
begin

section \<open>Python values, exceptions and list operations\<close>

text \<open>
  Python floats are idealised as real numbers and Python integers are \<open>int\<close>.
  An exception of the source is a value of \<open>error\<close>. \<open>InvalidValue\<close> is not
  a Python exception: it marks the places where numpy divides zero by zero or takes the
  logarithm of a negative number and carries on with nan; the real numbers have no nan,
  so the model stops there with this marker.
\<close>

datatype error = IndexError | ValueError | ZeroDivisionError | StopIteration
  | RuntimeError | InvalidValue

text \<open>
  A method that mutates its object and may raise is modelled with the state at the
  moment the exception leaves the method: \<open>Raised e s\<close>.
\<close>

datatype 'a outcome = Ok 'a | Raised error 'a

fun after :: "'a outcome \<Rightarrow> 'a" where
  "after (Ok s) = s"
| "after (Raised e s) = s"

text \<open>Python indexing \<open>xs[i]\<close>: a negative index counts from the end.\<close>

definition py_index :: "'a list \<Rightarrow> int \<Rightarrow> nat option" where
  "py_index xs i =
     (let n = int (length xs); j = (if i < 0 then n + i else i)
      in if 0 \<le> j \<and> j < n then Some (nat j) else None)"

definition py_get :: "'a list \<Rightarrow> int \<Rightarrow> error + 'a" where
  "py_get xs i = (case py_index xs i of None \<Rightarrow> Inl IndexError | Some j \<Rightarrow> Inr (xs ! j))"

text \<open>\<open>xs.pop(i)\<close>, keeping the list that remains.\<close>

definition del_at :: "nat \<Rightarrow> 'a list \<Rightarrow> 'a list" where
  "del_at j xs = take j xs @ drop (Suc j) xs"

definition py_pop :: "'a list \<Rightarrow> int \<Rightarrow> error + 'a list" where
  "py_pop xs i = (case py_index xs i of None \<Rightarrow> Inl IndexError | Some j \<Rightarrow> Inr (del_at j xs))"

text \<open>\<open>next(ind for ind, v in enumerate(xs) if P v)\<close>; \<open>None\<close> is StopIteration.\<close>

fun first_index :: "('a \<Rightarrow> bool) \<Rightarrow> 'a list \<Rightarrow> nat option" where
  "first_index P [] = None"
| "first_index P (v # vs) = (if P v then Some 0 else map_option Suc (first_index P vs))"

text \<open>\<open>math.sqrt\<close> raises ValueError on a negative argument.\<close>

definition py_sqrt :: "real \<Rightarrow> error + real" where
  "py_sqrt v = (if v < 0 then Inl ValueError else Inr (sqrt v))"

section \<open>forces.py\<close>

text \<open>
  The literal constants of \<open>sim_constants\<close>. The constants that the source computes
  with astropy's unit conversion are parameters, collected in \<open>astropy_consts\<close>.
\<close>

definition m_hole :: real where "m_hole = 4000000"
definition m_bulge :: real where "m_bulge = 3760000000"
definition m_disk :: real where "m_disk = 60000000000"
definition m_halo :: real where "m_halo = 1000000000000"
definition r_halo :: real where "r_halo = 4125000000"

record astropy_consts =
  rc :: real
  scale :: real
  AUtoRsun :: real
  RsuntoAU :: real
  bound_vel :: real
  cgs_to_natural :: "real \<Rightarrow> real"

definition logterm :: "real \<Rightarrow> real" where
  "logterm r = ln (1 + (r / r_halo))"

definition rterm :: "real \<Rightarrow> real" where
  "rterm r = (r + r_halo) * (r ^ 2)"

text \<open>
  \<open>halo_force\<close>. \<open>1.0 / rterm(r)\<close> divides Python floats and raises
  ZeroDivisionError when \<open>rterm(r)\<close> is zero; \<open>logterm(r) / r**3\<close> is a numpy
  division, which does not raise.
\<close>

definition halo_force :: "astropy_consts \<Rightarrow> real \<Rightarrow> real \<Rightarrow> error + real" where
  "halo_force U r coord =
     (let halo_scale = (if r < 10 * rc U then 0 else 1 :: real)
      in if rterm r = 0 then Inl ZeroDivisionError
         else if 1 + (r / r_halo) < 0 then Inl InvalidValue
         else Inr (- halo_scale * m_halo * coord * ((logterm r / r ^ 3) - (1 / rterm r))))"

section \<open>otherintegrator.py: the data\<close>

record particle =
  pm :: real
  px :: real
  py :: real
  pz :: real
  vx :: real
  vy :: real
  vz :: real

text \<open>
  The bound-velocity criterion of \<open>sim_integrate\<close>:
  \<open>velinf2 = np.absolute(p.vx**2 + p.vy**2 + p.vz**2 - self.orbital_vels[star])\<close>.
\<close>

definition velinf2 :: "particle \<Rightarrow> real \<Rightarrow> real" where
  "velinf2 p ov = \<bar>(vx p) ^ 2 + (vy p) ^ 2 + (vz p) ^ 2 - ov\<bar>"

record RebSimIntegrator =
  Nstars :: int
  Nfrag :: int
  Nout :: int
  max_time :: real
  posx :: "real list list list"
  posy :: "real list list list"
  posz :: "real list list list"
  star_masses :: "real list"
  star_radii :: "real list"
  tidal_radii :: "real list"
  orbital_vels :: "real list"
  sfindices :: "int list"

text \<open>
  \<open>__init__\<close>. The fields \<open>forces\<close> (never used) and \<open>dmde\<close> (an instance of a
  class that the source imports and does not define; its \<open>energy_spread\<close> is a
  parameter of \<open>star_disrupt\<close> below) are left out.
\<close>

definition init :: "int \<Rightarrow> int \<Rightarrow> RebSimIntegrator" where
  "init ns nf =
     \<lparr>Nstars = ns, Nfrag = nf, Nout = 10000, max_time = 1000000 * 2 * pi,
      posx = replicate (nat ns) (replicate (nat nf) []),
      posy = replicate (nat ns) (replicate (nat nf) []),
      posz = replicate (nat ns) (replicate (nat nf) []),
      star_masses = [], star_radii = [], tidal_radii = [], orbital_vels = [],
      sfindices = [0]\<rparr>"

text \<open>
  The external integrator, as far as the orchestrator uses it: the particle array,
  \<open>add\<close>, \<open>N\<close> and \<open>remove(index)\<close>, which keeps the order of the remaining
  particles and moves the later ones down by one.
\<close>

record rebsim =
  particles :: "particle list"
  sim_t :: real
  exit_max_distance :: real

definition reb_N :: "rebsim \<Rightarrow> int" where
  "reb_N rs = int (length (particles rs))"

definition reb_add :: "rebsim \<Rightarrow> particle \<Rightarrow> rebsim" where
  "reb_add rs p = rs\<lparr>particles := particles rs @ [p]\<rparr>"

definition reb_remove :: "rebsim \<Rightarrow> int \<Rightarrow> rebsim outcome" where
  "reb_remove rs index =
     (if 0 \<le> index \<and> index < reb_N rs
      then Ok (rs\<lparr>particles := del_at (nat index) (particles rs)\<rparr>)
      else Raised RuntimeError rs)"

text \<open>The simulation as \<open>sim_integrate\<close> sets it up: the central body alone.\<close>

definition new_simulation :: "astropy_consts \<Rightarrow> rebsim" where
  "new_simulation U =
     \<lparr>particles = [\<lparr>pm = m_hole, px = 0, py = 0, pz = 0, vx = 0, vy = 0, vz = 0\<rparr>],
      sim_t = 0, exit_max_distance = 15 * scale U\<rparr>"

section \<open>otherintegrator.py: remove_fragment_record\<close>

text \<open>\<open>rows[star].pop(new_pi)\<close> on one of the nested trajectory lists.\<close>

definition pop_row :: "'a list list \<Rightarrow> int \<Rightarrow> int \<Rightarrow> error + 'a list list" where
  "pop_row rows star new_pi =
     (case py_index rows star of
        None \<Rightarrow> Inl IndexError
      | Some k \<Rightarrow>
          (case py_pop (rows ! k) new_pi of
             Inl e \<Rightarrow> Inl e
           | Inr row \<Rightarrow> Inr (rows[k := row])))"

definition remove_fragment_record :: "RebSimIntegrator \<Rightarrow> int \<Rightarrow> RebSimIntegrator outcome" where
  "remove_fragment_record s particle_index =
     (let pi = particle_index in
      case first_index (\<lambda>v. v > pi \<or> v = pi) (sfindices s) of
        None \<Rightarrow> Raised StopIteration s
      | Some i \<Rightarrow>
          (case py_get (sfindices s) (int i - 1) of
             Inl e \<Rightarrow> Raised e s
           | Inr prev \<Rightarrow>
               (let start = prev + 1; new_pi = pi - start; star = int i - 1 in
                case pop_row (posx s) star new_pi of
                  Inl e \<Rightarrow> Raised e s
                | Inr rx \<Rightarrow>
                    (let s1 = s\<lparr>posx := rx\<rparr> in
                     case pop_row (posy s1) star new_pi of
                       Inl e \<Rightarrow> Raised e s1
                     | Inr ry \<Rightarrow>
                         (let s2 = s1\<lparr>posy := ry\<rparr> in
                          case pop_row (posz s2) star new_pi of
                            Inl e \<Rightarrow> Raised e s2
                          | Inr rz \<Rightarrow>
                              Ok (s2\<lparr>posz := rz,
                                     sfindices := take i (sfindices s2)
                                       @ map (\<lambda>v. v - 1) (drop i (sfindices s2))\<rparr>))))))"

text \<open>
  The pair of calls with which \<open>sim_integrate\<close> removes a particle:
  \<open>reb_sim.remove(index); self.remove_fragment_record(index)\<close>.
\<close>

definition remove_particle ::
  "RebSimIntegrator \<times> rebsim \<Rightarrow> int \<Rightarrow> (RebSimIntegrator \<times> rebsim) outcome" where
  "remove_particle \<sigma> index =
     (case reb_remove (snd \<sigma>) index of
        Raised e rs \<Rightarrow> Raised e (fst \<sigma>, rs)
      | Ok rs \<Rightarrow>
          (case remove_fragment_record (fst \<sigma>) index of
             Raised e s \<Rightarrow> Raised e (s, rs)
           | Ok s \<Rightarrow> Ok (s, rs)))"

text \<open>A state with one disrupted star that has one fragment left (particle 1).\<close>

definition one_star :: RebSimIntegrator where
  "one_star = (init 1 1)\<lparr>star_masses := [1], star_radii := [1], tidal_radii := [1],
     orbital_vels := [8000000], sfindices := [0, 1]\<rparr>"

section \<open>otherintegrator.py: star_disrupt\<close>

text \<open>
  The random draws of one call, in the order of the source, and the collaborators that
  the source imports from modules it does not contain: the \<open>funcs\<close> module and the
  \<open>energy_spread\<close> method of the sampler object \<open>self.dmde\<close>.
\<close>

record draws =
  xstar :: real
  u1 :: real
  th1 :: real
  xbeta :: real
  phi2 :: real

record collaborators =
  mstar_dist :: "real \<Rightarrow> real"
  rstar_func :: "real \<Rightarrow> real"
  r_tidal :: "real \<Rightarrow> real \<Rightarrow> real"
  beta_dist :: "real \<Rightarrow> real"
  dmde_energy_spread :: "real \<Rightarrow> int \<Rightarrow> error + real list"

type_synonym vec3 = "real \<times> real \<times> real"

fun scale3 :: "real \<Rightarrow> vec3 \<Rightarrow> vec3" where
  "scale3 c (a1, a2, a3) = (c * a1, c * a2, c * a3)"

fun norm3 :: "vec3 \<Rightarrow> real" where
  "norm3 (a1, a2, a3) = sqrt (a1 ^ 2 + a2 ^ 2 + a3 ^ 2)"

fun cross3 :: "vec3 \<Rightarrow> vec3 \<Rightarrow> vec3" where
  "cross3 (a1, a2, a3) (b1, b2, b3) = (a2 * b3 - a3 * b2, a3 * b1 - a1 * b3, a1 * b2 - a2 * b1)"

text \<open>
  \<open>rads = [r_star * float(f) / float(self.Nfrag + 1) for f in range(self.Nfrag + 1)]\<close>
  followed by \<open>rads.pop(0)\<close>, which raises IndexError on the empty list.
\<close>

definition rads_of :: "real \<Rightarrow> int \<Rightarrow> error + real list" where
  "rads_of r_star nfrag =
     (case map (\<lambda>f. r_star * real f / real_of_int (nfrag + 1)) [0..<nat (nfrag + 1)] of
        [] \<Rightarrow> Inl IndexError
      | r0 # rads \<Rightarrow> Inr rads)"

definition star_direc_of :: "real \<Rightarrow> real \<Rightarrow> error + vec3" where
  "star_direc_of u th =
     (case py_sqrt (1 - u ^ 2) of
        Inl e \<Rightarrow> Inl e
      | Inr w \<Rightarrow> Inr (w * cos th, w * sin th, u))"

text \<open>
  \<open>nrg_scale\<close>: the power \<open>**(-1.0)\<close> of a Python float raises ZeroDivisionError
  at zero, and a fractional power of a negative Python float raises ValueError.
\<close>

definition nrg_scale_of :: "astropy_consts \<Rightarrow> real \<Rightarrow> real \<Rightarrow> error + real" where
  "nrg_scale_of U r_star m_star =
     (if r_star * AUtoRsun U = 0 then Inl ZeroDivisionError
      else if m_star < 0 then Inl ValueError
      else Inr (inverse (r_star * AUtoRsun U) * m_star powr (2 / 3)
                  * (m_hole / 1000000) powr (1 / 3)))"

fun map_err :: "('a \<Rightarrow> error + 'b) \<Rightarrow> 'a list \<Rightarrow> error + 'b list" where
  "map_err f [] = Inr []"
| "map_err f (v # vs) =
     (case f v of
        Inl e \<Rightarrow> Inl e
      | Inr w \<Rightarrow> (case map_err f vs of Inl e \<Rightarrow> Inl e | Inr ws \<Rightarrow> Inr (w # ws)))"

text \<open>\<open>vels = [sqrt((2.0 * g) + (2.0 * m_hole / r_t)) for g in energies]\<close>.\<close>

definition vels_of :: "real \<Rightarrow> real list \<Rightarrow> error + real list" where
  "vels_of r_t energies = map_err (\<lambda>g. py_sqrt ((2 * g) + (2 * m_hole / r_t))) energies"

text \<open>
  The direction of the velocity. The arithmetic is numpy's, which raises nothing; where
  it divides by zero the result is not a number.
\<close>

definition vel_direc_of :: "vec3 \<Rightarrow> real \<Rightarrow> error + vec3" where
  "vel_direc_of star_vec ph =
     (case star_vec of (x, y, z) \<Rightarrow>
        (let r = norm3 star_vec in
         if r = 0 then Inl InvalidValue
         else case py_sqrt (2 - 2 * z / r) of
           Inl e \<Rightarrow> Inl e
         | Inr w \<Rightarrow>
             if r ^ 2 * w = 0 then Inl InvalidValue
             else
               (let randomvelvec =
                      ((x * (r - z + z * cos ph) - r * y * sin ph) / (r ^ 2 * w),
                       (y * (r - z + z * cos ph) + r * x * sin ph) / (r ^ 2 * w),
                       ((r - z) * z - (x ^ 2 + y ^ 2) * cos ph) / (r ^ 2 * w));
                    velocity_vec = cross3 star_vec randomvelvec;
                    n = norm3 velocity_vec
                in if n = 0 then Inl InvalidValue
                   else Inr (scale3 (inverse n) velocity_vec))))"

text \<open>The loop \<open>for frag in tnrange(self.Nfrag)\<close> that adds the fragments.\<close>

fun add_fragments ::
  "real list \<Rightarrow> real list \<Rightarrow> vec3 \<Rightarrow> vec3 \<Rightarrow> real \<Rightarrow> int list \<Rightarrow> rebsim \<Rightarrow> rebsim outcome" where
  "add_fragments vels rads vel_direc star_direc r_t [] rs = Ok rs"
| "add_fragments vels rads vel_direc star_direc r_t (frag # rest) rs =
     (case py_get vels frag of
        Inl e \<Rightarrow> Raised e rs
      | Inr vel \<Rightarrow>
          (case py_get rads frag of
             Inl e \<Rightarrow> Raised e rs
           | Inr rad \<Rightarrow>
               (case (scale3 vel vel_direc, scale3 (r_t + rad) star_direc) of
                  ((v1, v2, v3), (q1, q2, q3)) \<Rightarrow>
                    add_fragments vels rads vel_direc star_direc r_t rest
                      (reb_add rs \<lparr>pm = 0, px = q1, py = q2, pz = q3,
                                   vx = v1, vy = v2, vz = v3\<rparr>))))"

definition star_disrupt ::
  "collaborators \<Rightarrow> astropy_consts \<Rightarrow> draws \<Rightarrow> RebSimIntegrator \<times> rebsim
     \<Rightarrow> (RebSimIntegrator \<times> rebsim) outcome" where
  "star_disrupt E U D \<sigma> =
     (let s = fst \<sigma>; rs = snd \<sigma>;
          m_star = mstar_dist E (xstar D);
          s1 = s\<lparr>star_masses := star_masses s @ [m_star]\<rparr>;
          r_star = rstar_func E m_star * RsuntoAU U;
          s2 = s1\<lparr>star_radii := star_radii s1 @ [r_star]\<rparr>
      in case rads_of r_star (Nfrag s2) of
        Inl e \<Rightarrow> Raised e (s2, rs)
      | Inr rads \<Rightarrow>
     (let r_t = r_tidal E m_star r_star;
          s3 = s2\<lparr>tidal_radii := tidal_radii s2 @ [r_t]\<rparr>
      in if r_t = 0 then Raised ZeroDivisionError (s3, rs)
      else
     (let s4 = s3\<lparr>orbital_vels := orbital_vels s3 @ [2 * m_hole / r_t]\<rparr>
      in case star_direc_of (u1 D) (th1 D) of
        Inl e \<Rightarrow> Raised e (s4, rs)
      | Inr star_direc \<Rightarrow>
     (let star_vec = scale3 r_t star_direc;
          beta = beta_dist E (xbeta D)
      in case dmde_energy_spread E beta (Nfrag s4) of
        Inl e \<Rightarrow> Raised e (s4, rs)
      | Inr NRGs \<Rightarrow>
     (case nrg_scale_of U r_star m_star of
        Inl e \<Rightarrow> Raised e (s4, rs)
      | Inr nrg_scale \<Rightarrow>
     (let energies = map (\<lambda>nrg. cgs_to_natural U (nrg_scale * nrg)) NRGs
      in case vels_of r_t energies of
        Inl e \<Rightarrow> Raised e (s4, rs)
      | Inr vels \<Rightarrow>
     (case vel_direc_of star_vec (phi2 D) of
        Inl e \<Rightarrow> Raised e (s4, rs)
      | Inr vel_direc \<Rightarrow>
     (case add_fragments vels rads vel_direc star_direc r_t
             (map int [0..<nat (Nfrag s4)]) rs of
        Raised e rs' \<Rightarrow> Raised e (s4, rs')
      | Ok rs' \<Rightarrow>
          Ok (s4\<lparr>sfindices := sfindices s4 @ [reb_N rs' - 1]\<rparr>, rs')))))))))"

text \<open>
  The states that a run can reach: construction and the fresh simulation of
  \<open>sim_integrate\<close>, then any sequence of disruptions and of removals of a fragment
  (a particle other than the central body), each of which returned.
\<close>

inductive reachable ::
  "collaborators \<Rightarrow> astropy_consts \<Rightarrow> RebSimIntegrator \<times> rebsim \<Rightarrow> bool"
  for E :: collaborators and U :: astropy_consts where
  start: "reachable E U (init ns nf, new_simulation U)"
| disrupt: "reachable E U \<sigma> \<Longrightarrow> star_disrupt E U D \<sigma> = Ok \<sigma>' \<Longrightarrow> reachable E U \<sigma>'"
| remove: "reachable E U \<sigma> \<Longrightarrow> 1 \<le> index \<Longrightarrow> remove_particle \<sigma> index = Ok \<sigma>'
             \<Longrightarrow> reachable E U \<sigma>'"

section \<open>Sequences of operations and the examples\<close>

text \<open>A sequence of removals, each made as \<open>sim_integrate\<close> makes it.\<close>

fun remove_all ::
  "RebSimIntegrator \<times> rebsim \<Rightarrow> int list \<Rightarrow> (RebSimIntegrator \<times> rebsim) outcome" where
  "remove_all \<sigma> [] = Ok \<sigma>"
| "remove_all \<sigma> (index # rest) =
     (case remove_particle \<sigma> index of
        Raised e \<sigma>' \<Rightarrow> Raised e \<sigma>'
      | Ok \<sigma>' \<Rightarrow> remove_all \<sigma>' rest)"

text \<open>
  \<open>own_fragments b m indices\<close>: the indices remove, one after the other, the \<open>m\<close>
  particles that sit above the boundary value \<open>b\<close>, each index being that of a
  particle still among them when its turn comes.
\<close>

fun own_fragments :: "int \<Rightarrow> int \<Rightarrow> int list \<Rightarrow> bool" where
  "own_fragments b m [] = (m = 0)"
| "own_fragments b m (index # rest) =
     (b < index \<and> index \<le> b + m \<and> own_fragments b (m - 1) rest)"

text \<open>
  The bookkeeping agrees with the integrator: the boundaries start at 0, do not
  decrease, end at the last particle index, and there is one per disrupted star.
\<close>

definition consistent :: "RebSimIntegrator \<times> rebsim \<Rightarrow> bool" where
  "consistent \<sigma> =
     (let s = fst \<sigma>; sf = sfindices s
      in sf \<noteq> [] \<and> sf ! 0 = 0 \<and> sorted sf \<and> last sf = reb_N (snd \<sigma>) - 1
         \<and> length sf = 1 + length (star_masses s)
         \<and> length (star_radii s) = length (star_masses s)
         \<and> length (tidal_radii s) = length (star_masses s)
         \<and> length (orbital_vels s) = length (star_masses s))"

text \<open>
  A small run: collaborators that return 1, a sampler that returns \<open>Nfrag\<close> zero
  energies, unit conversions that are the identity, and draws that are all 0. The
  first disruption of \<open>init 1 1\<close> gives \<open>disrupted\<close>; removing particle 1 from it
  gives \<open>emptied\<close>.
\<close>

definition E0 :: collaborators where
  "E0 = \<lparr>mstar_dist = (\<lambda>_. 1), rstar_func = (\<lambda>_. 1), r_tidal = (\<lambda>_ _. 1),
          beta_dist = (\<lambda>_. 1), dmde_energy_spread = (\<lambda>_ n. Inr (replicate (nat n) 0))\<rparr>"

definition U0 :: astropy_consts where
  "U0 = \<lparr>rc = 1, scale = 1, AUtoRsun = 1, RsuntoAU = 1, bound_vel = 1,
          cgs_to_natural = (\<lambda>v. v)\<rparr>"

definition D0 :: draws where
  "D0 = \<lparr>xstar = 0, u1 = 0, th1 = 0, xbeta = 0, phi2 = 0\<rparr>"

definition disrupted :: "RebSimIntegrator \<times> rebsim" where
  "disrupted =
     (one_star,
      (new_simulation U0)\<lparr>particles := particles (new_simulation U0) @
         [\<lparr>pm = 0, px = 3 / 2, py = 0, pz = 0, vx = 0, vy = sqrt 8000000, vz = 0\<rparr>]\<rparr>)"

definition emptied :: "RebSimIntegrator \<times> rebsim" where
  "emptied =
     (one_star\<lparr>posx := [[]], posy := [[]], posz := [[]], sfindices := [0, 0]\<rparr>,
      new_simulation U0)"

text \<open>
  \<open>row_shrunk rows rows' k n\<close>: \<open>rows'\<close> is \<open>rows\<close> except that row \<open>k\<close> has
  \<open>n\<close> entries fewer.
\<close>

definition row_shrunk :: "'a list list \<Rightarrow> 'a list list \<Rightarrow> nat \<Rightarrow> nat \<Rightarrow> bool" where
  "row_shrunk rows rows' k n =
     (rows' = rows[k := rows' ! k] \<and> length (rows' ! k) + n = length (rows ! k))"

section \<open>otherintegrator.py: the bound-velocity scan of sim_integrate\<close>

text \<open>
  The loop \<open>for index in range(reb_sim.N)\<close> of \<open>sim_integrate\<close>, over the indices
  that \<open>range\<close> fixed when the loop started. \<open>next\<close> raises StopIteration when no
  boundary covers the index; the handler \<open>except StopIteration: break\<close> catches it, as
  it catches the one raised after a removal and one that leaves
  \<open>remove_fragment_record\<close>. Every other exception leaves the loop.
\<close>

fun bound_scan ::
  "astropy_consts \<Rightarrow> int list \<Rightarrow> RebSimIntegrator \<times> rebsim
     \<Rightarrow> (RebSimIntegrator \<times> rebsim) outcome" where
  "bound_scan U [] \<sigma> = Ok \<sigma>"
| "bound_scan U (index # rest) \<sigma> =
     (if index = 0 then bound_scan U rest \<sigma>
      else case py_get (particles (snd \<sigma>)) index of
        Inl e \<Rightarrow> Raised e \<sigma>
      | Inr p \<Rightarrow>
          (case first_index (\<lambda>v. v > index \<or> v = index) (sfindices (fst \<sigma>)) of
             None \<Rightarrow> Ok \<sigma>
           | Some i \<Rightarrow>
               (let star = int i - 1 in
                case py_get (orbital_vels (fst \<sigma>)) star of
                  Inl e \<Rightarrow> Raised e \<sigma>
                | Inr ov \<Rightarrow>
                    (case py_sqrt (velinf2 p ov) of
                       Inl e \<Rightarrow> Raised e \<sigma>
                     | Inr velinf \<Rightarrow>
                         if velinf < bound_vel U
                         then (case remove_particle \<sigma> index of
                                 Ok \<sigma>' \<Rightarrow> Ok \<sigma>'
                               | Raised e \<sigma>' \<Rightarrow>
                                   if e = StopIteration then Ok \<sigma>' else Raised e \<sigma>')
                         else bound_scan U rest \<sigma>))))"

definition bound_velocity_scan ::
  "astropy_consts \<Rightarrow> RebSimIntegrator \<times> rebsim \<Rightarrow> (RebSimIntegrator \<times> rebsim) outcome" where
  "bound_velocity_scan U \<sigma> = bound_scan U (map int [0..<length (particles (snd \<sigma>))]) \<sigma>"

text \<open>
  Particle \<open>k\<close> satisfies the bound-velocity condition: a boundary covers it, its
  star has a stored orbital value, and \<open>velinf < bound_vel\<close>.
\<close>

definition is_bound :: "astropy_consts \<Rightarrow> RebSimIntegrator \<times> rebsim \<Rightarrow> nat \<Rightarrow> bool" where
  "is_bound U \<sigma> k =
     (case first_index (\<lambda>v. v > int k \<or> v = int k) (sfindices (fst \<sigma>)) of
        None \<Rightarrow> False
      | Some i \<Rightarrow>
          (case py_get (orbital_vels (fst \<sigma>)) (int i - 1) of
             Inl e \<Rightarrow> False
           | Inr ov \<Rightarrow> sqrt (velinf2 (particles (snd \<sigma>) ! k) ov) < bound_vel U))"

text \<open>
  A state with one star and its two fragments, both of them bound: their squared speed
  equals the stored orbital value.
\<close>

definition slow :: particle where
  "slow = \<lparr>pm = 0, px = 3 / 2, py = 0, pz = 0, vx = 0, vy = sqrt 8000000, vz = 0\<rparr>"

definition two_bound :: "RebSimIntegrator \<times> rebsim" where
  "two_bound =
     ((init 1 2)\<lparr>star_masses := [1], star_radii := [1], tidal_radii := [1],
                  orbital_vels := [8000000], sfindices := [0, 2]\<rparr>,
      (new_simulation U0)\<lparr>particles := particles (new_simulation U0) @ [slow, slow\<lparr>px := 2\<rparr>]\<rparr>)"

section \<open>dMdEdist.py\<close>

text \<open>
  scipy's \<open>interp1d(x, y)\<close>, as far as the module relies on it: the object accepts the
  arguments between the least and the greatest knot and raises ValueError outside; the
  interpolated value comes from a parameter, the kernel. The kernel that scipy uses by
  default, linear interpolation, is \<open>linear\<close> below.
\<close>

record interp1d =
  x_lo :: real
  x_hi :: real
  curve :: "real \<Rightarrow> real"

type_synonym kernel = "real list \<Rightarrow> real list \<Rightarrow> real \<Rightarrow> real"

definition least :: "real list \<Rightarrow> real" where
  "least vs = fold min vs (hd vs)"

definition greatest :: "real list \<Rightarrow> real" where
  "greatest vs = fold max vs (hd vs)"

definition interp1d :: "kernel \<Rightarrow> real list \<Rightarrow> real list \<Rightarrow> interp1d" where
  "interp1d kern xs ys = \<lparr>x_lo = least xs, x_hi = greatest xs, curve = kern xs ys\<rparr>"

text \<open>A call of the interpolant on an array of arguments.\<close>

definition call :: "interp1d \<Rightarrow> real list \<Rightarrow> error + real list" where
  "call f xs =
     (if \<exists>v\<in>set xs. v < x_lo f \<or> x_hi f < v then Inl ValueError
      else Inr (map (curve f) xs))"

text \<open>
  What the class body of \<open>dMdEdist_init\<close> reads from one file: the number at the
  head of the file name, the first number of line 1, and the numbers of lines 3 and 4.
\<close>

record dmde_file =
  name_beta :: real
  mass_token :: real
  line_a :: "real list"
  line_b :: "real list"

text \<open>The class attributes; \<open>functions'\<close> is the list \<open>functions\<close>.\<close>

record dmde_tables =
  betas :: "real list"
  masses :: "real list"
  functions' :: "interp1d list"

text \<open>
  \<open>for i, point in enumerate(a): if point > 0: x.append(a[i]); y.append(b[i])\<close>.
\<close>

fun retain :: "real list \<Rightarrow> real list \<Rightarrow> error + (real list \<times> real list)" where
  "retain [] bs = Inr ([], [])"
| "retain (point # as) bs =
     (if point > 0
      then (case bs of
              [] \<Rightarrow> Inl IndexError
            | q # bs' \<Rightarrow>
                (case retain as bs' of
                   Inl e \<Rightarrow> Inl e
                 | Inr (x, y) \<Rightarrow> Inr (point # x, q # y)))
      else retain as (tl bs))"

definition step :: nat where "step = 10"

text \<open>The slice \<open>xs[a:b]\<close> for \<open>0 \<le> a\<close> and \<open>0 \<le> b\<close>.\<close>

definition py_slice :: "'a list \<Rightarrow> nat \<Rightarrow> nat \<Rightarrow> 'a list" where
  "py_slice xs a b = take (b - a) (drop a xs)"

text \<open>
  The coarsening loop, \<open>for i in range(n / step)\<close> with Python 2's integer division:
  \<open>sum(x[step * i:(step * i) + step - 1]) / float(step)\<close> for each \<open>i\<close>.
\<close>

definition coarsen :: "nat \<Rightarrow> real list \<Rightarrow> real list" where
  "coarsen n v =
     map (\<lambda>i. sum_list (py_slice v (step * i) ((step * i) + step - 1)) / real step)
       [0..<n div step]"

fun cumsum_from :: "real \<Rightarrow> real list \<Rightarrow> real list" where
  "cumsum_from acc [] = []"
| "cumsum_from acc (v # vs) = (acc + v) # cumsum_from (acc + v) vs"

definition cumsum :: "real list \<Rightarrow> real list" where
  "cumsum vs = cumsum_from 0 vs"

definition py_max :: "real list \<Rightarrow> error + real" where
  "py_max vs = (if vs = [] then Inl ValueError else Inr (greatest vs))"

text \<open>
  From the two lines of a file to its interpolant. Where the greatest cumulative value
  is 0, numpy's division gives a curve that is not a number.
\<close>

definition build_function :: "kernel \<Rightarrow> real list \<Rightarrow> real list \<Rightarrow> error + interp1d" where
  "build_function kern a b =
     (case retain a b of
        Inl e \<Rightarrow> Inl e
      | Inr (x, y) \<Rightarrow>
          (let n = length x;
               s = rev (coarsen n x @ [0]);
               p_s = rev (coarsen n y @ [0])
           in case py_max (cumsum p_s) of
                Inl e \<Rightarrow> Inl e
              | Inr peak \<Rightarrow>
                  if peak = 0 then Inl InvalidValue
                  else (let CDE = map (\<lambda>c. c / peak) (cumsum p_s)
                        in Inr (interp1d kern CDE s))))"

fun load_files :: "kernel \<Rightarrow> dmde_file list \<Rightarrow> dmde_tables \<Rightarrow> error + dmde_tables" where
  "load_files kern [] T = Inr T"
| "load_files kern (file # files) T =
     (case build_function kern (line_a file) (line_b file) of
        Inl e \<Rightarrow> Inl e
      | Inr f \<Rightarrow>
          load_files kern files
            \<lparr>betas = betas T @ [name_beta file],
             masses = masses T @ [mass_token file / 2],
             functions' = functions' T @ [f]\<rparr>)"

definition dMdEdist_init :: "kernel \<Rightarrow> dmde_file list \<Rightarrow> error + dmde_tables" where
  "dMdEdist_init kern files = load_files kern files \<lparr>betas = [], masses = [], functions' = []\<rparr>"

text \<open>
  \<open>beta_interp\<close>. \<open>argsort\<close> is modelled as a stable sort of the indices; the
  theorems below do not depend on the order among equal distances. The two quotients
  are numpy divisions: zero by zero gives weights that are not numbers.
\<close>

definition argsort :: "real list \<Rightarrow> nat list" where
  "argsort ds = sort_key (\<lambda>k. ds ! k) [0..<length ds]"

record blend =
  p1 :: real
  p2 :: real
  f1 :: interp1d
  f2 :: interp1d
  x1 :: real
  x2 :: real

definition beta_interp :: "dmde_tables \<Rightarrow> real \<Rightarrow> error + blend" where
  "beta_interp T beta =
     (let diffs = map (\<lambda>b. \<bar>b - beta\<bar>) (betas T) in
      case take 2 (argsort diffs) of
        [i, j] \<Rightarrow>
          (case py_get (functions' T) (int i) of
             Inl e \<Rightarrow> Inl e
           | Inr g1 \<Rightarrow>
               (case py_get (functions' T) (int j) of
                  Inl e \<Rightarrow> Inl e
                | Inr g2 \<Rightarrow>
                    (let d1 = diffs ! i; d2 = diffs ! j; d = d1 + d2 in
                     if d = 0 then Inl InvalidValue
                     else Inr \<lparr>p1 = d2 / d, p2 = d1 / d, f1 = g1, f2 = g2,
                               x1 = betas T ! i, x2 = betas T ! j\<rparr>)))
      | _ \<Rightarrow> Inl ValueError)"

text \<open>The function \<open>f_new\<close> that \<open>beta_interp\<close> returns, called on an array.\<close>

definition f_new :: "blend \<Rightarrow> real list \<Rightarrow> error + real list" where
  "f_new B xs =
     (case call (f1 B) xs of
        Inl e \<Rightarrow> Inl e
      | Inr a \<Rightarrow>
          (case call (f2 B) xs of
             Inl e \<Rightarrow> Inl e
           | Inr b \<Rightarrow> Inr (map2 (\<lambda>u v. p1 B * u + p2 B * v) a b)))"

text \<open>\<open>np.linspace(start, stop, num)\<close>.\<close>

definition linspace :: "real \<Rightarrow> real \<Rightarrow> int \<Rightarrow> error + real list" where
  "linspace start stop num =
     (if num < 0 then Inl ValueError
      else if num = 1 then Inr [start]
      else Inr (map (\<lambda>i. start + real i * ((stop - start) / real_of_int (num - 1)))
                  [0..<nat num]))"

text \<open>The sample points of \<open>energy_spread\<close>: \<open>bin_size\<close>, \<open>half\<close> and \<open>x_set\<close>.\<close>

definition x_set :: "int \<Rightarrow> error + real list" where
  "x_set nfrag =
     (if nfrag = 0 then Inl ZeroDivisionError
      else (let bin_size = 1 / real_of_int nfrag;
                half = bin_size * (1 / 2)
            in linspace half (1 - half) (nfrag - 1)))"

definition energy_spread :: "dmde_tables \<Rightarrow> real \<Rightarrow> int \<Rightarrow> error + real list" where
  "energy_spread T beta nfrag =
     (case beta_interp T beta of
        Inl e \<Rightarrow> Inl e
      | Inr B \<Rightarrow>
          (case x_set nfrag of
             Inl e \<Rightarrow> Inl e
           | Inr xs \<Rightarrow> f_new B xs))"

section \<open>The sampler as the specification words it\<close>

text \<open>
  The midpoints of the \<open>n\<close> equal bins that partition the unit interval, and the
  average of block \<open>i\<close> of ten consecutive samples.
\<close>

definition bin_midpoints :: "nat \<Rightarrow> real list" where
  "bin_midpoints n = map (\<lambda>i. (2 * real i + 1) / (2 * real n)) [0..<n]"

definition block_average :: "real list \<Rightarrow> nat \<Rightarrow> real" where
  "block_average v i = sum_list (py_slice v (10 * i) (10 * i + 10)) / 10"

text \<open>
  Two small tables, for \<open>\<beta> = 1/2\<close> and \<open>\<beta> = 3/2\<close>, each from a file with ten
  positive samples, and a kernel that interpolates linearly between the first two
  knots. \<open>T0\<close> is what the class body builds from them.
\<close>

definition kern0 :: kernel where
  "kern0 xs ys v = ys ! 0 + (v - xs ! 0) * (ys ! 1 - ys ! 0) / (xs ! 1 - xs ! 0)"

definition files0 :: "dmde_file list" where
  "files0 =
     [\<lparr>name_beta = 1 / 2, mass_token = 2,
       line_a = [10, 9, 8, 7, 6, 5, 4, 3, 2, 1],
       line_b = [1, 1, 1, 1, 1, 1, 1, 1, 1, 1]\<rparr>,
      \<lparr>name_beta = 3 / 2, mass_token = 4,
       line_a = [20, 18, 16, 14, 12, 10, 8, 6, 4, 2],
       line_b = [2, 2, 2, 2, 2, 2, 2, 2, 2, 2]\<rparr>]"

definition T0 :: dmde_tables where
  "T0 = \<lparr>betas = [1 / 2, 3 / 2], masses = [1, 2],
          functions' = [interp1d kern0 [0, 1] [0, 27 / 5], interp1d kern0 [0, 1] [0, 54 / 5]]\<rparr>"

section \<open>scipy's linear interpolation\<close>

text \<open>
  The kernel of \<open>interp1d\<close> with its default kind, linear, which is the one the class
  body uses. The constructor sorts the knots by abscissa (a stable sort) and carries the
  ordinates along. A call finds with \<open>searchsorted\<close> the first knot that is not below
  the argument, clips that index to \<open>1 .. len - 1\<close>, and interpolates between the
  knot before it and that knot. For every argument above the least knot the two knots
  are strictly apart; at the least knot itself they may coincide, and there numpy's
  quotient is not a number where the quotient of the reals is 0.
\<close>

definition knots :: "real list \<Rightarrow> real list \<Rightarrow> (real \<times> real) list" where
  "knots xs ys = sort_key fst (zip xs ys)"

fun searchsorted :: "real list \<Rightarrow> real \<Rightarrow> nat" where
  "searchsorted [] v = 0"
| "searchsorted (k # ks) v = (if k < v then Suc (searchsorted ks v) else 0)"

definition linear :: kernel where
  "linear xs ys v =
     (let ks = knots xs ys;
          hi = min (max (searchsorted (map fst ks) v) 1) (length ks - 1);
          lo = hi - 1;
          slope = (snd (ks ! hi) - snd (ks ! lo)) / (fst (ks ! hi) - fst (ks ! lo))
      in slope * (v - fst (ks ! lo)) + snd (ks ! lo))"

text \<open>
  The list \<open>s\<close> that the class body builds from a file: the energies at the knots of
  the file's interpolant.
\<close>

definition energy_knots :: "dmde_file \<Rightarrow> real list" where
  "energy_knots fl =
     (case retain (line_a fl) (line_b fl) of
        Inl e \<Rightarrow> []
      | Inr (x, y) \<Rightarrow> rev (coarsen (length x) x @ [0]))"

text \<open>What the class body builds from \<open>files0\<close> with the linear kernel.\<close>

definition T1 :: dmde_tables where
  "T1 = \<lparr>betas = [1 / 2, 3 / 2], masses = [1, 2],
          functions' = [interp1d linear [0, 1] [0, 27 / 5], interp1d linear [0, 1] [0, 54 / 5]]\<rparr>"

section \<open>Theorems\<close>

subsection \<open>The halo force\<close>

lemma rterm_pos: "0 < r \<Longrightarrow> 0 < rterm r"
  by (simp add: rterm_def r_halo_def)

text \<open>
  C7. For every \<open>r > 0\<close> and every \<open>coord\<close>, \<open>halo_force(r, coord)\<close> returns
  (raising nothing) exactly 0 when \<open>r < 10 * rc\<close>, and otherwise
  \<open>- m_halo * coord * (log(1 + r / r_halo) / r^3 - 1 / ((r + r_halo) * r^2))\<close>.
\<close>

theorem halo_force_value:
  assumes "0 < r"
  shows "halo_force U r coord =
           Inr (if r < 10 * rc U then 0
                else - m_halo * coord * (ln (1 + r / r_halo) / r ^ 3 - 1 / ((r + r_halo) * r ^ 2)))"
proof -
  from assms have nz: "rterm r \<noteq> 0"
    using rterm_pos [of r] by simp
  from assms have "0 < r / r_halo"
    by (simp add: r_halo_def)
  then have pos: "\<not> 1 + r / r_halo < 0"
    by simp
  show ?thesis
    using nz pos by (simp add: halo_force_def logterm_def) (simp add: rterm_def)
qed

theorem halo_force_value_witness:
  "(0::real) < 10 \<and>
   halo_force \<lparr>rc = 1, scale = 1, AUtoRsun = 1, RsuntoAU = 1, bound_vel = 1,
                cgs_to_natural = (\<lambda>v. v)\<rparr> 10 2 =
     Inr (- m_halo * 2 * (ln (1 + 10 / r_halo) / 10 ^ 3 - 1 / ((10 + r_halo) * 10 ^ 2)))"
  using halo_force_value [of 10 "\<lparr>rc = 1, scale = 1, AUtoRsun = 1, RsuntoAU = 1,
    bound_vel = 1, cgs_to_natural = (\<lambda>v. v)\<rparr>" 2]
  by simp

subsection \<open>Removing a fragment record\<close>


lemma first_index_Some:
  "first_index P xs = Some i \<Longrightarrow> i < length xs \<and> P (xs ! i) \<and> (\<forall>j<i. \<not> P (xs ! j))"
proof (induction xs arbitrary: i)
  case Nil
  then show ?case by simp
next
  case (Cons v vs)
  show ?case
  proof (cases "P v")
    case True
    with Cons.prems show ?thesis by simp
  next
    case False
    with Cons.prems obtain i' where i': "first_index P vs = Some i'" "i = Suc i'"
      by auto
    from Cons.IH [OF i'(1)] False i'(2) show ?thesis
      by (auto simp: less_Suc_eq_0_disj)
  qed
qed

lemma first_index_None: "first_index P xs = None \<longleftrightarrow> (\<forall>v\<in>set xs. \<not> P v)"
  by (induction xs) auto

lemma pop_row_length: "pop_row rows star j = Inr rows' \<Longrightarrow> length rows' = length rows"
  by (auto simp: pop_row_def split: option.splits sum.splits)

lemma pop_row_nonneg:
  assumes "pop_row rows star j = Inr rows'" "0 \<le> star" "0 \<le> j"
  shows "nat star < length rows \<and> nat j < length (rows ! nat star)
         \<and> rows' = rows[nat star := del_at (nat j) (rows ! nat star)]"
  using assms
  by (auto simp: pop_row_def py_pop_def py_index_def Let_def split: option.splits sum.splits if_splits)

lemma rfr_sfindices_length:
  "length (sfindices (after (remove_fragment_record s p))) = length (sfindices s)"
  by (auto simp: remove_fragment_record_def Let_def split: option.splits sum.splits)

lemma rfr_Ok:
  assumes "remove_fragment_record s p = Ok s'"
  shows "\<exists>i prev. first_index (\<lambda>v. v > p \<or> v = p) (sfindices s) = Some i
     \<and> py_get (sfindices s) (int i - 1) = Inr prev
     \<and> pop_row (posx s) (int i - 1) (p - (prev + 1)) = Inr (posx s')
     \<and> pop_row (posy s) (int i - 1) (p - (prev + 1)) = Inr (posy s')
     \<and> pop_row (posz s) (int i - 1) (p - (prev + 1)) = Inr (posz s')
     \<and> sfindices s' = take i (sfindices s) @ map (\<lambda>v. v - 1) (drop i (sfindices s))
     \<and> orbital_vels s' = orbital_vels s \<and> star_masses s' = star_masses s
     \<and> star_radii s' = star_radii s \<and> tidal_radii s' = tidal_radii s
     \<and> Nfrag s' = Nfrag s \<and> Nstars s' = Nstars s"
  using assms
  by (auto simp: remove_fragment_record_def Let_def split: option.splits sum.splits)


text \<open>
  C9. \<open>remove_fragment_record\<close> never changes the length of \<open>sfindices\<close>,
  whether it returns or raises. When it returns, it has popped one entry from each of
  the owning star's three trajectory lists and decremented by 1 the boundary values at
  or after the located boundary \<open>i\<close>, deleting none; when the removed fragment was
  the last one of its star, the star's boundary entry is still there and equals its
  predecessor.
\<close>

theorem remove_fragment_record_frame:
  "length (sfindices (after (remove_fragment_record s p))) = length (sfindices s)
   \<and> (\<forall>s'. remove_fragment_record s p = Ok s' \<longrightarrow>
        (\<exists>i. first_index (\<lambda>v. v > p \<or> v = p) (sfindices s) = Some i
           \<and> sfindices s' = take i (sfindices s) @ map (\<lambda>v. v - 1) (drop i (sfindices s))
           \<and> (0 < i \<longrightarrow>
                (let star = i - 1; new_pi = nat (p - sfindices s ! star - 1) in
                   star < length (posx s) \<and> new_pi < length (posx s ! star)
                   \<and> posx s' = (posx s)[star := del_at new_pi (posx s ! star)]
                   \<and> star < length (posy s) \<and> new_pi < length (posy s ! star)
                   \<and> posy s' = (posy s)[star := del_at new_pi (posy s ! star)]
                   \<and> star < length (posz s) \<and> new_pi < length (posz s ! star)
                   \<and> posz s' = (posz s)[star := del_at new_pi (posz s ! star)]
                   \<and> (sfindices s ! i = sfindices s ! star + 1 \<longrightarrow>
                        sfindices s' ! i = sfindices s' ! star)))))"
proof (intro conjI allI impI)
  show "length (sfindices (after (remove_fragment_record s p))) = length (sfindices s)"
    by (rule rfr_sfindices_length)
next
  fix s'
  assume ok: "remove_fragment_record s p = Ok s'"
  from rfr_Ok [OF ok] obtain i prev where
    fi: "first_index (\<lambda>v. v > p \<or> v = p) (sfindices s) = Some i"
    and prev: "py_get (sfindices s) (int i - 1) = Inr prev"
    and rx: "pop_row (posx s) (int i - 1) (p - (prev + 1)) = Inr (posx s')"
    and ry: "pop_row (posy s) (int i - 1) (p - (prev + 1)) = Inr (posy s')"
    and rz: "pop_row (posz s) (int i - 1) (p - (prev + 1)) = Inr (posz s')"
    and sf: "sfindices s' = take i (sfindices s) @ map (\<lambda>v. v - 1) (drop i (sfindices s))"
    by blast
  from first_index_Some [OF fi] have ilen: "i < length (sfindices s)"
    and before: "\<forall>j<i. \<not> (sfindices s ! j > p \<or> sfindices s ! j = p)"
    by blast+
  have rows: "let star = i - 1; new_pi = nat (p - sfindices s ! star - 1) in
                   star < length (posx s) \<and> new_pi < length (posx s ! star)
                   \<and> posx s' = (posx s)[star := del_at new_pi (posx s ! star)]
                   \<and> star < length (posy s) \<and> new_pi < length (posy s ! star)
                   \<and> posy s' = (posy s)[star := del_at new_pi (posy s ! star)]
                   \<and> star < length (posz s) \<and> new_pi < length (posz s ! star)
                   \<and> posz s' = (posz s)[star := del_at new_pi (posz s ! star)]
                   \<and> (sfindices s ! i = sfindices s ! star + 1 \<longrightarrow>
                        sfindices s' ! i = sfindices s' ! star)" if pos: "0 < i"
  proof -
    from pos ilen have pv: "prev = sfindices s ! (i - 1)"
      using prev by (auto simp: py_get_def py_index_def Let_def nat_diff_distrib split: if_splits)
    from pos before have lt: "sfindices s ! (i - 1) < p"
      by (metis diff_less linorder_neqE_linordered_idom zero_less_one)
    have st: "nat (int i - 1) = i - 1" "0 \<le> int i - 1"
      using pos by auto
    have np: "0 \<le> p - (prev + 1)" "p - (prev + 1) = p - sfindices s ! (i - 1) - 1"
      using lt pv by auto
    note X = pop_row_nonneg [OF rx st(2) np(1)]
    note Y = pop_row_nonneg [OF ry st(2) np(1)]
    note Z = pop_row_nonneg [OF rz st(2) np(1)]
    have last: "sfindices s' ! i = sfindices s ! i - 1" "sfindices s' ! (i - 1) = sfindices s ! (i - 1)"
      using ilen pos by (simp_all add: sf nth_append)
    show ?thesis
      using X Y Z last by (simp add: Let_def st np)
  qed
  show "\<exists>i. first_index (\<lambda>v. v > p \<or> v = p) (sfindices s) = Some i
           \<and> sfindices s' = take i (sfindices s) @ map (\<lambda>v. v - 1) (drop i (sfindices s))
           \<and> (0 < i \<longrightarrow>
                (let star = i - 1; new_pi = nat (p - sfindices s ! star - 1) in
                   star < length (posx s) \<and> new_pi < length (posx s ! star)
                   \<and> posx s' = (posx s)[star := del_at new_pi (posx s ! star)]
                   \<and> star < length (posy s) \<and> new_pi < length (posy s ! star)
                   \<and> posy s' = (posy s)[star := del_at new_pi (posy s ! star)]
                   \<and> star < length (posz s) \<and> new_pi < length (posz s ! star)
                   \<and> posz s' = (posz s)[star := del_at new_pi (posz s ! star)]
                   \<and> (sfindices s ! i = sfindices s ! star + 1 \<longrightarrow>
                        sfindices s' ! i = sfindices s' ! star)))"
    using fi sf rows by blast
qed

lemma one_star_removed:
  "remove_fragment_record one_star 1 = Ok (one_star\<lparr>posx := [[]], posy := [[]], posz := [[]], sfindices := [0, 0]\<rparr>)"
  by (simp add: remove_fragment_record_def one_star_def init_def Let_def py_get_def py_index_def
      pop_row_def py_pop_def del_at_def)

theorem remove_fragment_record_frame_witness:
  "remove_fragment_record one_star 1 = Ok (one_star\<lparr>posx := [[]], posy := [[]], posz := [[]], sfindices := [0, 0]\<rparr>)
   \<and> length (sfindices (after (remove_fragment_record one_star 1))) = length (sfindices one_star)
   \<and> sfindices one_star = [0, 1]
   \<and> sfindices (after (remove_fragment_record one_star 1)) = [0, 0]"
  using remove_fragment_record_frame [of one_star 1] one_star_removed
  by (simp add: one_star_def init_def)

subsection \<open>The boundaries under disruption and removal\<close>

lemma add_fragments_Ok:
  "add_fragments vels rads vd sd r_t frags rs = Ok rs'
   \<Longrightarrow> \<exists>new. particles rs' = particles rs @ new \<and> length new = length frags"
proof (induction frags arbitrary: rs)
  case Nil
  then show ?case by simp
next
  case (Cons frag rest)
  from Cons.prems obtain p where "add_fragments vels rads vd sd r_t rest (reb_add rs p) = Ok rs'"
    by (auto split: sum.splits prod.splits)
  from Cons.IH [OF this] show ?case
    by (auto simp: reb_add_def)
qed

lemma rads_of_Ok: "rads_of r n = Inr rads \<Longrightarrow> 0 \<le> n"
  by (cases "0 \<le> n") (auto simp: rads_of_def)

lemma star_disrupt_Ok:
  assumes "star_disrupt E U D (s, rs) = Ok (s', rs')"
  shows "0 \<le> Nfrag s"
    and "\<exists>new. particles rs' = particles rs @ new \<and> length new = nat (Nfrag s)"
    and "sfindices s' = sfindices s @ [reb_N rs' - 1]"
    and "posx s' = posx s \<and> posy s' = posy s \<and> posz s' = posz s"
    and "length (star_masses s') = Suc (length (star_masses s))
         \<and> length (star_radii s') = Suc (length (star_radii s))
         \<and> length (tidal_radii s') = Suc (length (tidal_radii s))
         \<and> length (orbital_vels s') = Suc (length (orbital_vels s))"
    and "Nfrag s' = Nfrag s \<and> Nstars s' = Nstars s"
proof -
  from assms obtain rads vels vd sd r_t where
    rads: "rads_of (rstar_func E (mstar_dist E (xstar D)) * RsuntoAU U) (Nfrag s) = Inr rads"
    and add: "add_fragments vels rads vd sd r_t (map int [0..<nat (Nfrag s)]) rs = Ok rs'"
    and s': "s' = s\<lparr>star_masses := star_masses s @ [mstar_dist E (xstar D)],
                     star_radii := star_radii s @ [rstar_func E (mstar_dist E (xstar D)) * RsuntoAU U],
                     tidal_radii := tidal_radii s @ [r_t],
                     orbital_vels := orbital_vels s @ [2 * m_hole / r_t],
                     sfindices := sfindices s @ [reb_N rs' - 1]\<rparr>"
    by (auto simp: star_disrupt_def Let_def split: sum.splits outcome.splits if_splits)
  show "0 \<le> Nfrag s" using rads by (rule rads_of_Ok)
  show "\<exists>new. particles rs' = particles rs @ new \<and> length new = nat (Nfrag s)"
    using add_fragments_Ok [OF add] by simp
  show "sfindices s' = sfindices s @ [reb_N rs' - 1]" by (simp add: s')
  show "posx s' = posx s \<and> posy s' = posy s \<and> posz s' = posz s" by (simp add: s')
  show "length (star_masses s') = Suc (length (star_masses s))
         \<and> length (star_radii s') = Suc (length (star_radii s))
         \<and> length (tidal_radii s') = Suc (length (tidal_radii s))
         \<and> length (orbital_vels s') = Suc (length (orbital_vels s))" by (simp add: s')
  show "Nfrag s' = Nfrag s \<and> Nstars s' = Nstars s" by (simp add: s')
qed


lemma sorted_map_pred: "sorted (xs :: int list) \<Longrightarrow> sorted (map (\<lambda>v. v - 1) xs)"
  by (induction xs) auto

lemma sorted_decrement:
  assumes "sorted (sf :: int list)" and "first_index (\<lambda>v. v > p \<or> v = p) sf = Some i"
  shows "sorted (take i sf @ map (\<lambda>v. v - 1) (drop i sf))"
proof -
  from first_index_Some [OF assms(2)] have ilen: "i < length sf" and at: "p \<le> sf ! i"
    and before: "\<forall>j<i. \<not> (sf ! j > p \<or> sf ! j = p)"
    by auto
  have low: "x \<le> p - 1" if "x \<in> set (take i sf)" for x
  proof -
    from that obtain j where "j < i" "x = sf ! j"
      using ilen by (auto simp: in_set_conv_nth)
    with before have "\<not> (sf ! j > p \<or> sf ! j = p)" by blast
    with \<open>x = sf ! j\<close> show ?thesis by linarith
  qed
  have high: "p \<le> v" if "v \<in> set (drop i sf)" for v
  proof -
    from that obtain j where "j < length sf - i" "v = sf ! (i + j)"
      by (auto simp: in_set_conv_nth)
    then have "sf ! i \<le> v"
      using assms(1) by (simp add: sorted_nth_mono)
    with at show ?thesis by simp
  qed
  have "sorted (drop i sf)"
    using assms(1) by (rule sorted_wrt_drop)
  then have "sorted (map (\<lambda>v. v - 1) (drop i sf))"
    by (rule sorted_map_pred)
  moreover have "sorted (take i sf)"
    using assms(1) by (rule sorted_wrt_take)
  ultimately show ?thesis
    using low high by (fastforce simp: sorted_append)
qed

lemma reb_remove_Ok:
  "reb_remove rs index = Ok rs' \<Longrightarrow>
     0 \<le> index \<and> index < reb_N rs \<and> particles rs' = del_at (nat index) (particles rs)"
  by (auto simp: reb_remove_def split: if_splits)

lemma remove_particle_Ok:
  assumes "remove_particle (s, rs) index = Ok (s', rs')"
  shows "reb_remove rs index = Ok rs'" and "remove_fragment_record s index = Ok s'"
  using assms by (auto simp: remove_particle_def split: outcome.splits)

lemma length_del_at: "j < length xs \<Longrightarrow> length (del_at j xs) = length xs - 1"
  by (simp add: del_at_def)

lemma sorted_le_last: "sorted xs \<Longrightarrow> x \<in> set xs \<Longrightarrow> x \<le> (last xs :: int)"
  by (induction xs) (auto split: if_splits)

lemma consistent_start: "consistent (init ns nf, new_simulation U)"
  by (simp add: consistent_def init_def new_simulation_def reb_N_def)

lemma consistent_disrupt:
  assumes "consistent \<sigma>" and "star_disrupt E U D \<sigma> = Ok \<sigma>'"
  shows "consistent \<sigma>'"
proof -
  obtain s rs s' rs' where [simp]: "\<sigma> = (s, rs)" "\<sigma>' = (s', rs')"
    by (cases \<sigma>, cases \<sigma>') auto
  from assms(2) have ok: "star_disrupt E U D (s, rs) = Ok (s', rs')" by simp
  note F = star_disrupt_Ok [OF ok]
  from F(2) have "reb_N rs \<le> reb_N rs'"
    by (auto simp: reb_N_def)
  moreover from assms(1) have c: "sfindices s \<noteq> []" "sfindices s ! 0 = 0" "sorted (sfindices s)"
    "last (sfindices s) = reb_N rs - 1" "length (sfindices s) = 1 + length (star_masses s)"
    "length (star_radii s) = length (star_masses s)"
    "length (tidal_radii s) = length (star_masses s)"
    "length (orbital_vels s) = length (star_masses s)"
    by (simp_all add: consistent_def Let_def)
  ultimately have "\<forall>x\<in>set (sfindices s). x \<le> reb_N rs' - 1"
    using sorted_le_last [OF c(3)] by fastforce
  then have "sorted (sfindices s')"
    using c(3) by (simp add: F(3) sorted_append)
  then show ?thesis
    using c F(3,5) by (simp add: consistent_def Let_def nth_append)
qed


lemma consistent_remove:
  assumes "consistent \<sigma>" and "1 \<le> index" and "remove_particle \<sigma> index = Ok \<sigma>'"
  shows "consistent \<sigma>'"
proof -
  obtain s rs s' rs' where [simp]: "\<sigma> = (s, rs)" "\<sigma>' = (s', rs')"
    by (cases \<sigma>, cases \<sigma>') auto
  from assms(3) have ok: "remove_particle (s, rs) index = Ok (s', rs')" by simp
  from assms(1) have c: "sfindices s \<noteq> []" "sfindices s ! 0 = 0" "sorted (sfindices s)"
    "last (sfindices s) = reb_N rs - 1" "length (sfindices s) = 1 + length (star_masses s)"
    "length (star_radii s) = length (star_masses s)"
    "length (tidal_radii s) = length (star_masses s)"
    "length (orbital_vels s) = length (star_masses s)"
    by (simp_all add: consistent_def Let_def)
  from reb_remove_Ok [OF remove_particle_Ok(1) [OF ok]]
  have N: "reb_N rs' = reb_N rs - 1"
    by (auto simp: reb_N_def length_del_at)
  from rfr_Ok [OF remove_particle_Ok(2) [OF ok]] obtain i where
    fi: "first_index (\<lambda>v. v > index \<or> v = index) (sfindices s) = Some i"
    and sf: "sfindices s' = take i (sfindices s) @ map (\<lambda>v. v - 1) (drop i (sfindices s))"
    and per: "orbital_vels s' = orbital_vels s" "star_masses s' = star_masses s"
      "star_radii s' = star_radii s" "tidal_radii s' = tidal_radii s"
    by blast
  from first_index_Some [OF fi] have ilen: "i < length (sfindices s)"
    and at: "index \<le> sfindices s ! i"
    by auto
  have ipos: "0 < i"
    using at c(2) assms(2) by (cases i) auto
  have "sorted (sfindices s')"
    unfolding sf using c(3) fi by (rule sorted_decrement)
  moreover have "sfindices s' ! 0 = 0"
    using ipos ilen c(2) by (simp add: sf nth_append)
  moreover have "last (sfindices s') = reb_N rs' - 1"
    using ilen c(4) by (simp add: sf N last_map last_drop)
  moreover have "length (sfindices s') = length (sfindices s)"
    by (simp add: sf)
  ultimately show ?thesis
    using c per by (auto simp: consistent_def Let_def)
qed

lemma reachable_consistent: "reachable E U \<sigma> \<Longrightarrow> consistent \<sigma>"
proof (induction rule: reachable.induct)
  case (start ns nf)
  show ?case by (rule consistent_start)
next
  case (disrupt \<sigma> D \<sigma>')
  then show ?case by (blast intro: consistent_disrupt)
next
  case (remove \<sigma> index \<sigma>')
  then show ?case by (blast intro: consistent_remove)
qed

text \<open>
  C1 (as amended). In every reachable state, after any sequence of \<open>star_disrupt\<close>
  and fragment removals, \<open>sfindices\<close> is non-decreasing (not strictly increasing: a
  star that lost all its fragments keeps a boundary equal to its predecessor), has
  \<open>sfindices[0] = 0\<close>, ends at the last particle index, and its length is 1 plus the
  number of stars disrupted so far, which is the length of each per-star list.
\<close>

theorem sfindices_invariant:
  assumes "reachable E U (s, rs)"
  shows "sfindices s \<noteq> [] \<and> sfindices s ! 0 = 0 \<and> sorted (sfindices s)
         \<and> length (sfindices s) = 1 + length (star_masses s)
         \<and> length (star_radii s) = length (star_masses s)
         \<and> length (tidal_radii s) = length (star_masses s)
         \<and> length (orbital_vels s) = length (star_masses s)
         \<and> last (sfindices s) = reb_N rs - 1"
  using reachable_consistent [OF assms] by (simp add: consistent_def Let_def)

lemma vel_direc_example: "vel_direc_of (1, 0, 0) 0 = Inr (0, 1, 0)"
  by (simp add: vel_direc_of_def Let_def py_sqrt_def)

lemma rads_example: "rads_of 1 1 = Inr [1 / 2]"
  by (simp add: rads_of_def upt_conv_Cons)

lemma disrupt_example: "star_disrupt E0 U0 D0 (init 1 1, new_simulation U0) = Ok disrupted"
  by (simp add: star_disrupt_def E0_def U0_def D0_def init_def new_simulation_def Let_def
     rads_example star_direc_of_def py_sqrt_def nrg_scale_of_def vels_of_def vel_direc_example
     m_hole_def py_get_def py_index_def reb_add_def reb_N_def disrupted_def one_star_def)

lemma remove_example: "remove_particle disrupted 1 = Ok emptied"
  by (simp add: remove_particle_def disrupted_def emptied_def reb_remove_def reb_N_def
      new_simulation_def del_at_def one_star_removed)

lemma reachable_emptied: "reachable E0 U0 emptied"
proof -
  have "reachable E0 U0 (init 1 1, new_simulation U0)"
    by (rule reachable.start)
  then have "reachable E0 U0 disrupted"
    using disrupt_example by (rule reachable.disrupt)
  then show ?thesis
    using _ remove_example by (rule reachable.remove) simp
qed

text \<open>
  C1 as stated fails: disrupting one star with one fragment and removing that fragment
  reaches a state whose \<open>sfindices\<close> is \<open>[0, 0]\<close>, which is not strictly increasing.
\<close>

theorem sfindices_strict_counterexample:
  "reachable E0 U0 emptied \<and> sfindices (fst emptied) = [0, 0]
   \<and> \<not> sorted_wrt (<) (sfindices (fst emptied))"
  using reachable_emptied by (simp add: emptied_def)

theorem sfindices_invariant_witness:
  "reachable E0 U0 emptied \<and> sfindices (fst emptied) = [0, 0]
   \<and> sorted (sfindices (fst emptied))
   \<and> length (sfindices (fst emptied)) = 1 + length (star_masses (fst emptied))
   \<and> last (sfindices (fst emptied)) = reb_N (snd emptied) - 1"
  using sfindices_invariant [of E0 U0 "fst emptied" "snd emptied"] reachable_emptied
  by (simp add: emptied_def)

subsection \<open>Disrupting a star and removing all its fragments\<close>

lemma first_index_append_last:
  assumes "\<forall>v\<in>set sf0. \<not> P v" and "P c"
  shows "first_index P (sf0 @ [c]) = Some (length sf0)"
  using assms by (induction sf0) auto

lemma del_at_append_right:
  "length ps \<le> j \<Longrightarrow> del_at j (ps @ new) = ps @ del_at (j - length ps) new"
  by (simp add: del_at_def Suc_diff_le)

lemma remove_own_fragment:
  assumes ok: "remove_particle (s1, rs1) index = Ok (s', rs')"
    and sf: "sfindices s1 = sf0 @ [b + m]" and ne: "sf0 \<noteq> []"
    and low: "\<forall>v\<in>set sf0. v \<le> b" and rng: "b < index" "index \<le> b + m"
    and ps: "particles rs1 = ps @ new" "int (length new) = m" "int (length ps) = b + 1"
  shows "sfindices s' = sf0 @ [b + (m - 1)]"
    and "\<exists>new'. particles rs' = ps @ new' \<and> int (length new') = m - 1"
    and "\<exists>j. length sf0 - 1 < length (posx s1) \<and> j < length (posx s1 ! (length sf0 - 1))
           \<and> posx s' = (posx s1)[length sf0 - 1 := del_at j (posx s1 ! (length sf0 - 1))]"
    and "\<exists>j. length sf0 - 1 < length (posy s1) \<and> j < length (posy s1 ! (length sf0 - 1))
           \<and> posy s' = (posy s1)[length sf0 - 1 := del_at j (posy s1 ! (length sf0 - 1))]"
    and "\<exists>j. length sf0 - 1 < length (posz s1) \<and> j < length (posz s1 ! (length sf0 - 1))
           \<and> posz s' = (posz s1)[length sf0 - 1 := del_at j (posz s1 ! (length sf0 - 1))]"
proof -
  have fi: "first_index (\<lambda>v. v > index \<or> v = index) (sfindices s1) = Some (length sf0)"
    unfolding sf using low rng by (intro first_index_append_last) auto
  from rfr_Ok [OF remove_particle_Ok(2) [OF ok]] fi obtain prev where
    prev: "py_get (sfindices s1) (int (length sf0) - 1) = Inr prev"
    and rx: "pop_row (posx s1) (int (length sf0) - 1) (index - (prev + 1)) = Inr (posx s')"
    and ry: "pop_row (posy s1) (int (length sf0) - 1) (index - (prev + 1)) = Inr (posy s')"
    and rz: "pop_row (posz s1) (int (length sf0) - 1) (index - (prev + 1)) = Inr (posz s')"
    and sf': "sfindices s' = take (length sf0) (sfindices s1)
                @ map (\<lambda>v. v - 1) (drop (length sf0) (sfindices s1))"
    by auto
  show "sfindices s' = sf0 @ [b + (m - 1)]"
    by (simp add: sf' sf)
  have st: "0 \<le> int (length sf0) - 1" "nat (int (length sf0) - 1) = length sf0 - 1"
    using ne by (auto simp: Suc_le_eq)
  have lt0: "length sf0 - 1 < length sf0"
    using ne by simp
  have "py_index (sfindices s1) (int (length sf0) - 1) = Some (length sf0 - 1)"
    using st by (simp add: py_index_def Let_def sf)
  then have pv: "prev = last sf0"
    using prev lt0 by (simp add: py_get_def sf nth_append last_conv_nth ne)
  have "last sf0 \<le> b"
    using low ne by simp
  then have np: "0 \<le> index - (prev + 1)"
    using rng pv by simp
  from pop_row_nonneg [OF rx st(1) np]
  show "\<exists>j. length sf0 - 1 < length (posx s1) \<and> j < length (posx s1 ! (length sf0 - 1))
           \<and> posx s' = (posx s1)[length sf0 - 1 := del_at j (posx s1 ! (length sf0 - 1))]"
    by (auto simp: st)
  from pop_row_nonneg [OF ry st(1) np]
  show "\<exists>j. length sf0 - 1 < length (posy s1) \<and> j < length (posy s1 ! (length sf0 - 1))
           \<and> posy s' = (posy s1)[length sf0 - 1 := del_at j (posy s1 ! (length sf0 - 1))]"
    by (auto simp: st)
  from pop_row_nonneg [OF rz st(1) np]
  show "\<exists>j. length sf0 - 1 < length (posz s1) \<and> j < length (posz s1 ! (length sf0 - 1))
           \<and> posz s' = (posz s1)[length sf0 - 1 := del_at j (posz s1 ! (length sf0 - 1))]"
    by (auto simp: st)
  from reb_remove_Ok [OF remove_particle_Ok(1) [OF ok]]
  have pr: "particles rs' = del_at (nat index) (particles rs1)" and lt: "index < reb_N rs1"
    by auto
  have le: "length ps \<le> nat index"
    using ps(3) rng(1) by linarith
  have "nat index - length ps < length new"
    using ps rng by linarith
  then have "int (length (del_at (nat index - length ps) new)) = m - 1"
    using ps(2) by (simp add: length_del_at)
  then show "\<exists>new'. particles rs' = ps @ new' \<and> int (length new') = m - 1"
    using pr ps(1) del_at_append_right [OF le] by auto
qed


lemma row_shrunk_refl: "row_shrunk rows rows k 0"
  by (simp add: row_shrunk_def)

lemma row_shrunk_step:
  assumes "rows1 = rows[k := del_at j (rows ! k)]" and "k < length rows"
    and "j < length (rows ! k)" and "row_shrunk rows1 rows2 k n"
  shows "row_shrunk rows rows2 k (Suc n)"
proof -
  from assms(4) have a: "rows2 = rows1[k := rows2 ! k]"
    and b: "length (rows2 ! k) + n = length (rows1 ! k)"
    by (simp_all add: row_shrunk_def)
  from a have "rows2 = rows[k := rows2 ! k]"
    by (simp add: assms(1))
  moreover have "length (rows1 ! k) = length (rows ! k) - 1"
    using assms(2,3) by (simp add: assms(1) length_del_at)
  ultimately show ?thesis
    using b assms(3) unfolding row_shrunk_def by linarith
qed

lemma remove_all_own:
  assumes "own_fragments b m indices" and "remove_all (s1, rs1) indices = Ok (s2, rs2)"
    and "sfindices s1 = sf0 @ [b + m]" and "sf0 \<noteq> []" and "\<forall>v\<in>set sf0. v \<le> b"
    and "particles rs1 = ps @ new" and "int (length new) = m" and "int (length ps) = b + 1"
  shows "sfindices s2 = sf0 @ [b] \<and> particles rs2 = ps
         \<and> row_shrunk (posx s1) (posx s2) (length sf0 - 1) (nat m)
         \<and> row_shrunk (posy s1) (posy s2) (length sf0 - 1) (nat m)
         \<and> row_shrunk (posz s1) (posz s2) (length sf0 - 1) (nat m)"
  using assms
proof (induction indices arbitrary: m s1 rs1 new)
  case Nil
  then show ?case by (simp add: row_shrunk_refl)
next
  case (Cons index rest)
  from Cons.prems(1) have rng: "b < index" "index \<le> b + m"
    and own: "own_fragments b (m - 1) rest"
    by simp_all
  from Cons.prems(2) obtain s' rs' where
    one: "remove_particle (s1, rs1) index = Ok (s', rs')"
    and more: "remove_all (s', rs') rest = Ok (s2, rs2)"
    by (auto split: outcome.splits)
  note R = remove_own_fragment [OF one Cons.prems(3,4,5) rng Cons.prems(6,7,8)]
  from R(2) obtain new' where new': "particles rs' = ps @ new'" "int (length new') = m - 1"
    by blast
  note IH = Cons.IH [OF own more R(1) Cons.prems(4,5) new' Cons.prems(8)]
  have m: "nat m = Suc (nat (m - 1))"
    using rng by linarith
  from R(3) IH have "row_shrunk (posx s1) (posx s2) (length sf0 - 1) (Suc (nat (m - 1)))"
    by (blast intro: row_shrunk_step)
  moreover
  from R(4) IH have "row_shrunk (posy s1) (posy s2) (length sf0 - 1) (Suc (nat (m - 1)))"
    by (blast intro: row_shrunk_step)
  moreover
  from R(5) IH have "row_shrunk (posz s1) (posz s2) (length sf0 - 1) (Suc (nat (m - 1)))"
    by (blast intro: row_shrunk_step)
  ultimately show ?case
    using IH by (simp add: m)
qed

text \<open>
  C2 (as amended). From every reachable state, disrupting one star and then removing
  all \<open>Nfrag\<close> of its fragments, in any order, restores the particle array of the
  integrator, but not the bookkeeping: \<open>sfindices\<close> is one entry longer than before,
  the new entry repeating the previous boundary; \<open>star_disrupt\<close> leaves
  \<open>posx\<close>, \<open>posy\<close> and \<open>posz\<close> as they were, and the removals take \<open>Nfrag\<close>
  entries out of the row of the disrupted star, all other rows and the number of rows
  staying the same.
\<close>

theorem disrupt_then_remove_all:
  assumes "reachable E U (s, rs)"
    and "star_disrupt E U D (s, rs) = Ok \<sigma>1"
    and "own_fragments (reb_N rs - 1) (Nfrag s) indices"
    and "remove_all \<sigma>1 indices = Ok (s2, rs2)"
  shows "sfindices s2 = sfindices s @ [last (sfindices s)]
         \<and> particles rs2 = particles rs
         \<and> posx (fst \<sigma>1) = posx s \<and> posy (fst \<sigma>1) = posy s \<and> posz (fst \<sigma>1) = posz s
         \<and> row_shrunk (posx s) (posx s2) (length (sfindices s) - 1) (nat (Nfrag s))
         \<and> row_shrunk (posy s) (posy s2) (length (sfindices s) - 1) (nat (Nfrag s))
         \<and> row_shrunk (posz s) (posz s2) (length (sfindices s) - 1) (nat (Nfrag s))"
proof -
  obtain s1 rs1 where [simp]: "\<sigma>1 = (s1, rs1)"
    by (cases \<sigma>1) auto
  from reachable_consistent [OF assms(1)]
  have c: "sfindices s \<noteq> []" "sorted (sfindices s)" "last (sfindices s) = reb_N rs - 1"
    by (simp_all add: consistent_def Let_def)
  from assms(2) have ok: "star_disrupt E U D (s, rs) = Ok (s1, rs1)" by simp
  note F = star_disrupt_Ok [OF ok]
  from F(2) obtain new where new: "particles rs1 = particles rs @ new"
    "length new = nat (Nfrag s)"
    by blast
  have sf1: "sfindices s1 = sfindices s @ [(reb_N rs - 1) + Nfrag s]"
    using F(1,3) new by (simp add: reb_N_def)
  have low: "\<forall>v\<in>set (sfindices s). v \<le> reb_N rs - 1"
    using sorted_le_last [OF c(2)] c(3) by auto
  have len: "int (length new) = Nfrag s" "int (length (particles rs)) = (reb_N rs - 1) + 1"
    using F(1) new(2) by (simp_all add: reb_N_def)
  from assms(4) have all: "remove_all (s1, rs1) indices = Ok (s2, rs2)" by simp
  from remove_all_own [OF assms(3) all sf1 c(1) low new(1) len] F(4) c(3)
  show ?thesis by simp
qed

text \<open>
  C2 as stated fails: after the first disruption of \<open>init 1 1\<close> and the removal of
  its one fragment, \<open>sfindices\<close> is \<open>[0, 0]\<close> and not \<open>[0]\<close>, and the one row of
  each trajectory array has length 0 and not 1.
\<close>

theorem roundtrip_counterexample:
  "star_disrupt E0 U0 D0 (init 1 1, new_simulation U0) = Ok disrupted
   \<and> own_fragments (reb_N (new_simulation U0) - 1) (Nfrag (init 1 1)) [1]
   \<and> remove_all disrupted [1] = Ok emptied
   \<and> sfindices (init 1 1) = [0] \<and> sfindices (fst emptied) = [0, 0]
   \<and> sfindices (fst emptied) \<noteq> sfindices (init 1 1)
   \<and> map length (posx (init 1 1)) = [1] \<and> map length (posx (fst emptied)) = [0]
   \<and> map length (posy (init 1 1)) = [1] \<and> map length (posy (fst emptied)) = [0]
   \<and> map length (posz (init 1 1)) = [1] \<and> map length (posz (fst emptied)) = [0]"
  using disrupt_example remove_example
  by (simp add: init_def emptied_def one_star_def reb_N_def new_simulation_def)

theorem disrupt_then_remove_all_witness:
  "reachable E0 U0 (init 1 1, new_simulation U0)
   \<and> star_disrupt E0 U0 D0 (init 1 1, new_simulation U0) = Ok disrupted
   \<and> own_fragments (reb_N (new_simulation U0) - 1) (Nfrag (init 1 1)) [1]
   \<and> remove_all disrupted [1] = Ok emptied
   \<and> sfindices (fst emptied) = sfindices (init 1 1) @ [last (sfindices (init 1 1))]
   \<and> particles (snd emptied) = particles (new_simulation U0)
   \<and> row_shrunk (posx (init 1 1)) (posx (fst emptied)) 0 1"
proof -
  have r: "reachable E0 U0 (init 1 1, new_simulation U0)"
    by (rule reachable.start)
  have o: "own_fragments (reb_N (new_simulation U0) - 1) (Nfrag (init 1 1)) [1]"
    by (simp add: init_def reb_N_def new_simulation_def)
  have a: "remove_all disrupted [1] = Ok (fst emptied, snd emptied)"
    using remove_example by simp
  from disrupt_then_remove_all [OF r disrupt_example o a] r o a disrupt_example
  show ?thesis by (simp add: init_def)
qed

subsection \<open>The bound-velocity scan\<close>

lemma remove_particle_particles:
  "particles (snd (after (remove_particle \<sigma> index))) = particles (snd \<sigma>)
   \<or> (0 \<le> index \<and> index < reb_N (snd \<sigma>)
      \<and> particles (snd (after (remove_particle \<sigma> index))) = del_at (nat index) (particles (snd \<sigma>)))"
  by (auto simp: remove_particle_def reb_remove_def split: outcome.splits)

lemma bound_scan_cases:
  assumes "\<forall>index\<in>set idxs. 0 \<le> index"
  shows "particles (snd (after (bound_scan U idxs \<sigma>))) = particles (snd \<sigma>)
     \<or> (\<exists>pre k post. idxs = pre @ int k # post
          \<and> (\<forall>j\<in>set pre. j \<noteq> 0 \<longrightarrow> \<not> is_bound U \<sigma> (nat j))
          \<and> 0 < k \<and> k < length (particles (snd \<sigma>)) \<and> is_bound U \<sigma> k
          \<and> particles (snd (after (bound_scan U idxs \<sigma>))) = del_at k (particles (snd \<sigma>)))"
  using assms
proof (induction idxs)
  case Nil
  then show ?case by simp
next
  case (Cons index rest)
  let ?ps = "particles (snd \<sigma>)"
  from Cons.prems have nonneg: "0 \<le> index" and rest: "\<forall>index\<in>set rest. 0 \<le> index"
    by simp_all
  note IH = Cons.IH [OF rest]
  have skip: ?case if same: "bound_scan U (index # rest) \<sigma> = bound_scan U rest \<sigma>"
    and nb: "index \<noteq> 0 \<longrightarrow> \<not> is_bound U \<sigma> (nat index)"
  proof -
    from IH show ?thesis
    proof
      assume "particles (snd (after (bound_scan U rest \<sigma>))) = ?ps"
      then show ?thesis by (simp only: same) simp
    next
      assume "\<exists>pre k post. rest = pre @ int k # post
          \<and> (\<forall>j\<in>set pre. j \<noteq> 0 \<longrightarrow> \<not> is_bound U \<sigma> (nat j))
          \<and> 0 < k \<and> k < length ?ps \<and> is_bound U \<sigma> k
          \<and> particles (snd (after (bound_scan U rest \<sigma>))) = del_at k ?ps"
      then obtain pre k post where r: "rest = pre @ int k # post"
        and p: "\<forall>j\<in>set pre. j \<noteq> 0 \<longrightarrow> \<not> is_bound U \<sigma> (nat j)"
        and k: "0 < k" "k < length ?ps" "is_bound U \<sigma> k"
          "particles (snd (after (bound_scan U rest \<sigma>))) = del_at k ?ps"
        by blast
      have "index # rest = (index # pre) @ int k # post"
        using r by simp
      moreover have "\<forall>j\<in>set (index # pre). j \<noteq> 0 \<longrightarrow> \<not> is_bound U \<sigma> (nat j)"
        using p nb by simp
      ultimately show ?thesis
        using k unfolding same by blast
    qed
  qed
  show ?case
  proof (cases "index = 0")
    case True
    then show ?thesis by (intro skip) simp_all
  next
    case nz: False
    show ?thesis
    proof (cases "py_get ?ps index")
      case (Inl e)
      then show ?thesis using nz by simp
    next
      case (Inr p)
      then have inr: "nat index < length ?ps" "p = ?ps ! nat index"
        using nonneg by (auto simp: py_get_def py_index_def Let_def split: if_splits)
      show ?thesis
      proof (cases "first_index (\<lambda>v. v > index \<or> v = index) (sfindices (fst \<sigma>))")
        case None
        then show ?thesis using nz Inr by simp
      next
        case (Some i)
        show ?thesis
        proof (cases "py_get (orbital_vels (fst \<sigma>)) (int i - 1)")
          case (Inl e)
          then show ?thesis using nz Inr Some by simp
        next
          case ov: (Inr ov)
          have ib: "is_bound U \<sigma> (nat index) \<longleftrightarrow> sqrt (velinf2 p ov) < bound_vel U"
            using Some ov nonneg inr by (simp add: is_bound_def)
          show ?thesis
          proof (cases "sqrt (velinf2 p ov) < bound_vel U")
            case False
            then show ?thesis
              using nz Inr Some ov ib
              by (intro skip) (simp_all add: py_sqrt_def velinf2_def)
          next
            case True
            have res: "after (bound_scan U (index # rest) \<sigma>) = after (remove_particle \<sigma> index)"
              using nz Inr Some ov True
              by (simp add: py_sqrt_def velinf2_def split: outcome.splits)
            from remove_particle_particles [of \<sigma> index] show ?thesis
            proof
              assume "particles (snd (after (remove_particle \<sigma> index))) = ?ps"
              then show ?thesis by (simp only: res) simp
            next
              assume "0 \<le> index \<and> index < reb_N (snd \<sigma>)
                \<and> particles (snd (after (remove_particle \<sigma> index))) = del_at (nat index) ?ps"
              then have d: "particles (snd (after (bound_scan U (index # rest) \<sigma>)))
                  = del_at (nat index) ?ps"
                by (simp only: res)
              have "index # rest = [] @ int (nat index) # rest"
                using nonneg by simp
              moreover have "0 < nat index"
                using nz nonneg by simp
              moreover have "is_bound U \<sigma> (nat index)"
                using ib True by simp
              ultimately show ?thesis
                using d inr(1) by (metis empty_iff empty_set)
            qed
          qed
        qed
      qed
    qed
  qed
qed


lemma upt_split_at:
  assumes "map int [0..<n] = pre @ int k # post"
  shows "pre = map int [0..<k]"
proof -
  have len: "length pre < n"
    using arg_cong [OF assms, of length] by simp
  have "(map int [0..<n]) ! length pre = int k"
    by (simp only: assms nth_append_length)
  with len have k: "k = length pre" by simp
  have "pre = take (length pre) (map int [0..<n])"
    by (simp only: assms) simp
  also have "\<dots> = map int [0..<length pre]"
    using len by (simp add: take_map)
  finally show ?thesis
    by (simp add: k)
qed

text \<open>
  C8. In one run of the bound-velocity scan (one iteration of the scheduled-time loop)
  at most one particle is removed, whatever the outcome: the particle array afterwards
  is the one before, or the one before without exactly one fragment \<open>k\<close>, which is
  the first one that satisfies the bound-velocity condition. All other particles stay,
  also those that satisfy the condition: the scan stops at the first removal.
\<close>

theorem bound_scan_removes_at_most_one:
  "particles (snd (after (bound_velocity_scan U \<sigma>))) = particles (snd \<sigma>)
   \<or> (\<exists>k. 0 < k \<and> k < length (particles (snd \<sigma>)) \<and> is_bound U \<sigma> k
          \<and> (\<forall>j. 0 < j \<and> j < k \<longrightarrow> \<not> is_bound U \<sigma> j)
          \<and> particles (snd (after (bound_velocity_scan U \<sigma>))) = del_at k (particles (snd \<sigma>)))"
proof -
  let ?n = "length (particles (snd \<sigma>))"
  have "\<forall>index\<in>set (map int [0..<?n]). 0 \<le> index"
    by simp
  from bound_scan_cases [OF this, of U \<sigma>] show ?thesis
  proof
    assume "particles (snd (after (bound_scan U (map int [0..<?n]) \<sigma>))) = particles (snd \<sigma>)"
    then show ?thesis by (simp add: bound_velocity_scan_def)
  next
    assume "\<exists>pre k post. map int [0..<?n] = pre @ int k # post
          \<and> (\<forall>j\<in>set pre. j \<noteq> 0 \<longrightarrow> \<not> is_bound U \<sigma> (nat j))
          \<and> 0 < k \<and> k < ?n \<and> is_bound U \<sigma> k
          \<and> particles (snd (after (bound_scan U (map int [0..<?n]) \<sigma>))) = del_at k (particles (snd \<sigma>))"
    then obtain pre k post where sp: "map int [0..<?n] = pre @ int k # post"
      and nb: "\<forall>j\<in>set pre. j \<noteq> 0 \<longrightarrow> \<not> is_bound U \<sigma> (nat j)"
      and k: "0 < k" "k < ?n" "is_bound U \<sigma> k"
        "particles (snd (after (bound_scan U (map int [0..<?n]) \<sigma>))) = del_at k (particles (snd \<sigma>))"
      by blast
    have pre: "pre = map int [0..<k]"
      using sp by (rule upt_split_at)
    have "\<not> is_bound U \<sigma> j" if "0 < j" "j < k" for j
    proof -
      from that have "int j \<in> set pre" "int j \<noteq> 0"
        by (simp_all add: pre)
      with nb show ?thesis by fastforce
    qed
    with k show ?thesis
      unfolding bound_velocity_scan_def by blast
  qed
qed

lemma two_bound_scan:
  "bound_velocity_scan U0 two_bound =
     Ok ((fst two_bound)\<lparr>posx := [[[]]], posy := [[[]]], posz := [[[]]], sfindices := [0, 1]\<rparr>,
         (snd two_bound)\<lparr>particles := [hd (particles (snd two_bound)), slow\<lparr>px := 2\<rparr>]\<rparr>)"
  by (simp add: bound_velocity_scan_def two_bound_def new_simulation_def upt_conv_Cons
      py_get_def py_index_def Let_def init_def U0_def py_sqrt_def velinf2_def slow_def
      remove_particle_def reb_remove_def reb_N_def del_at_def remove_fragment_record_def
      pop_row_def py_pop_def)

lemma two_bound_both: "is_bound U0 two_bound 1 \<and> is_bound U0 two_bound 2"
  by (simp add: is_bound_def two_bound_def init_def py_get_def py_index_def Let_def
      new_simulation_def velinf2_def slow_def U0_def)

theorem bound_scan_removes_at_most_one_witness:
  "is_bound U0 two_bound 1 \<and> is_bound U0 two_bound 2
   \<and> length (particles (snd two_bound)) = 3
   \<and> particles (snd (after (bound_velocity_scan U0 two_bound)))
       = del_at 1 (particles (snd two_bound))
   \<and> length (particles (snd (after (bound_velocity_scan U0 two_bound)))) = 2"
  using bound_scan_removes_at_most_one [of U0 two_bound] two_bound_both two_bound_scan
  by (simp add: two_bound_def new_simulation_def del_at_def)

subsection \<open>The bound-velocity criterion\<close>

lemma py_get_error: "py_get xs i = Inl e \<Longrightarrow> e = IndexError"
  by (auto simp: py_get_def split: option.splits)

lemma pop_row_error: "pop_row rows star j = Inl e \<Longrightarrow> e = IndexError"
  by (auto simp: pop_row_def py_pop_def split: option.splits sum.splits)

lemma remove_fragment_record_error:
  "remove_fragment_record s p = Raised e s' \<Longrightarrow> e = IndexError \<or> e = StopIteration"
  by (auto simp: remove_fragment_record_def Let_def split: option.splits sum.splits
      dest: py_get_error pop_row_error)

lemma remove_particle_error:
  "remove_particle \<sigma> index = Raised e \<sigma>' \<Longrightarrow> e \<noteq> ValueError"
  by (auto simp: remove_particle_def reb_remove_def split: outcome.splits if_splits
      dest: remove_fragment_record_error)

lemma bound_scan_no_ValueError: "bound_scan U idxs \<sigma> \<noteq> Raised ValueError \<sigma>'"
proof (induction idxs)
  case Nil
  then show ?case by simp
next
  case (Cons index rest)
  then show ?case
    by (auto simp: Let_def py_sqrt_def velinf2_def split: sum.splits option.splits outcome.splits
        dest: py_get_error remove_particle_error)
qed

text \<open>
  C10. In the bound-velocity check the square root is always applied to a non-negative
  argument, for every particle velocity and every stored orbital value, since the
  argument is an absolute value: \<open>math.sqrt\<close> raises nothing, \<open>velinf\<close> is a
  non-negative real number also when the particle's squared speed is below the stored
  orbital value, and no run of the scan ends in a ValueError.
\<close>

theorem velinf_defined_nonneg:
  "0 \<le> velinf2 p ov \<and> py_sqrt (velinf2 p ov) = Inr (sqrt (velinf2 p ov))
     \<and> 0 \<le> sqrt (velinf2 p ov)
     \<and> bound_velocity_scan U \<sigma> \<noteq> Raised ValueError \<sigma>'"
  using bound_scan_no_ValueError [of U _ \<sigma> \<sigma>']
  by (simp add: velinf2_def py_sqrt_def bound_velocity_scan_def)

subsection \<open>The distribution sampler\<close>

text \<open>
  C4. The claim is that each coarsened point is the sum of the ten samples
  \<open>x[10 i .. 10 i + 9]\<close> divided by 10. The slice of the source ends at
  \<open>step * i + step - 1\<close>, exclusive, so only nine samples are summed: for the samples
  1 to 10 the code gives 45/10 where the block average is 55/10.
\<close>

theorem coarsen_drops_tenth_sample:
  "coarsen 10 [1, 2, 3, 4, 5, 6, 7, 8, 9, 10] = [9 / 2]
   \<and> block_average [1, 2, 3, 4, 5, 6, 7, 8, 9, 10] 0 = 11 / 2"
  by (simp add: coarsen_def step_def py_slice_def block_average_def)

text \<open>
  C5. The claim is that the sample points are the midpoints of the \<open>Nfrag\<close> bins,
  \<open>1 / Nfrag\<close> apart. The source asks \<open>linspace\<close> for \<open>Nfrag - 1\<close> points between
  the first and the last midpoint: for \<open>Nfrag = 3\<close> they are 1/6 and 5/6, which are
  2/3 apart, and the midpoint 1/2 is not among them.
\<close>

theorem x_set_not_bin_midpoints:
  "x_set 3 = Inr [1 / 6, 5 / 6] \<and> bin_midpoints 3 = [1 / 6, 1 / 2, 5 / 6]"
  by (simp add: x_set_def linspace_def Let_def bin_midpoints_def upt_conv_Cons)

lemma greatest_Max: "vs \<noteq> [] \<Longrightarrow> greatest vs = Max (set vs)"
proof (cases vs)
  case Nil
  then show "vs \<noteq> [] \<Longrightarrow> ?thesis" by simp
next
  case (Cons a list)
  have "greatest (a # list) = fold max list a"
    by (simp add: greatest_def)
  then show ?thesis
    unfolding Cons Max.set_eq_fold .
qed

lemma least_Min: "vs \<noteq> [] \<Longrightarrow> least vs = Min (set vs)"
proof (cases vs)
  case Nil
  then show "vs \<noteq> [] \<Longrightarrow> ?thesis" by simp
next
  case (Cons a list)
  have "least (a # list) = fold min list a"
    by (simp add: least_def)
  then show ?thesis
    unfolding Cons Min.set_eq_fold .
qed

lemma greatest_ge: "v \<in> set vs \<Longrightarrow> v \<le> greatest vs"
  by (cases "vs = []") (simp_all add: greatest_Max)

lemma least_le: "v \<in> set vs \<Longrightarrow> least vs \<le> v"
  by (cases "vs = []") (simp_all add: least_Min)

lemma greatest_in: "vs \<noteq> [] \<Longrightarrow> greatest vs \<in> set vs"
  by (simp add: greatest_Max)

lemma build_function_domain:
  assumes "build_function kern a b = Inr f"
  shows "x_lo f \<le> 0 \<and> 1 \<le> x_hi f"
proof -
  from assms obtain x y where xy: "retain a b = Inr (x, y)"
    by (auto simp: build_function_def split: sum.splits)
  let ?cs = "cumsum (rev (coarsen (length x) y @ [0]))"
  have cs: "?cs = 0 # cumsum_from 0 (rev (coarsen (length x) y))"
    by (simp add: cumsum_def)
  from assms xy have peak: "greatest ?cs \<noteq> 0"
    and f: "f = interp1d kern (map (\<lambda>c. c / greatest ?cs) ?cs) (rev (coarsen (length x) x @ [0]))"
    by (auto simp: build_function_def Let_def py_max_def split: if_splits)
  have "greatest ?cs \<in> set ?cs"
    unfolding cs by (rule greatest_in) simp
  then have "greatest ?cs / greatest ?cs \<in> set (map (\<lambda>c. c / greatest ?cs) ?cs)"
    by (simp only: set_map) (rule imageI)
  then have one: "1 \<in> set (map (\<lambda>c. c / greatest ?cs) ?cs)"
    using peak by simp
  have zero: "0 \<in> set (map (\<lambda>c. c / greatest ?cs) ?cs)"
    unfolding cs by simp
  show ?thesis
    using least_le [OF zero] greatest_ge [OF one] by (simp add: f interp1d_def)
qed

lemma load_files_domain:
  assumes "load_files kern files T = Inr T'"
    and "\<forall>f\<in>set (functions' T). x_lo f \<le> 0 \<and> 1 \<le> x_hi f"
  shows "\<forall>f\<in>set (functions' T'). x_lo f \<le> 0 \<and> 1 \<le> x_hi f"
  using assms
proof (induction files arbitrary: T)
  case Nil
  then show ?case by simp
next
  case (Cons fl files)
  from Cons.prems(1) obtain f where f: "build_function kern (line_a fl) (line_b fl) = Inr f"
    and rest: "load_files kern files
            \<lparr>betas = betas T @ [name_beta fl],
             masses = masses T @ [mass_token fl / 2],
             functions' = functions' T @ [f]\<rparr> = Inr T'"
    by (auto split: sum.splits)
  show ?case
    using Cons.IH [OF rest] Cons.prems(2) build_function_domain [OF f] by simp
qed

lemma dMdEdist_init_domain:
  "dMdEdist_init kern files = Inr T \<Longrightarrow> \<forall>f\<in>set (functions' T). x_lo f \<le> 0 \<and> 1 \<le> x_hi f"
  unfolding dMdEdist_init_def by (drule load_files_domain) simp_all

lemma argsort_first_two:
  assumes "2 \<le> length ds"
  obtains i j where "take 2 (argsort ds) = [i, j]" and "i < length ds" and "j < length ds"
    and "i \<noteq> j" and "ds ! i \<le> ds ! j" and "\<forall>k<length ds. ds ! i \<le> ds ! k"
    and "\<forall>k<length ds. k \<noteq> i \<longrightarrow> ds ! j \<le> ds ! k"
proof -
  have len: "length (argsort ds) = length ds"
    by (simp add: argsort_def)
  obtain i r where r: "argsort ds = i # r"
    using len assms by (cases "argsort ds") simp_all
  obtain j rest where "r = j # rest"
    using len assms r by (cases r) simp_all
  with r have srt: "argsort ds = i # j # rest"
    by simp
  have st: "set (argsort ds) = {0..<length ds}"
    by (simp add: argsort_def)
  have di: "distinct (argsort ds)"
    by (simp add: argsort_def)
  have "sorted (map (\<lambda>k. ds ! k) (argsort ds))"
    unfolding argsort_def by (rule sorted_sort_key)
  then have so: "ds ! i \<le> ds ! j" "\<forall>k\<in>set rest. ds ! i \<le> ds ! k"
    "\<forall>k\<in>set rest. ds ! j \<le> ds ! k"
    unfolding srt by simp_all
  have mem: "k = i \<or> k = j \<or> k \<in> set rest" if "k < length ds" for k
  proof -
    from that have "k \<in> set (argsort ds)"
      unfolding st by simp
    then show ?thesis
      unfolding srt by simp
  qed
  have ilt: "i < length ds" and jlt: "j < length ds"
    using st unfolding srt by auto
  have ne: "i \<noteq> j"
    using di unfolding srt by simp
  have first: "\<forall>k<length ds. ds ! i \<le> ds ! k"
  proof (intro allI impI)
    fix k assume "k < length ds"
    from mem [OF this] so show "ds ! i \<le> ds ! k"
      by blast
  qed
  have second: "\<forall>k<length ds. k \<noteq> i \<longrightarrow> ds ! j \<le> ds ! k"
  proof (intro allI impI)
    fix k assume "k < length ds" "k \<noteq> i"
    with mem [of k] so show "ds ! j \<le> ds ! k"
      by blast
  qed
  have "take 2 (argsort ds) = [i, j]"
    unfolding srt by (simp add: numeral_2_eq_2)
  then show ?thesis
    using ilt jlt ne so(1) first second by (rule that)
qed


lemma beta_interp_unfold:
  assumes "2 \<le> length (betas T)" and "length (functions' T) = length (betas T)"
  obtains i j where "i < length (betas T)" and "j < length (betas T)" and "i \<noteq> j"
    and "\<bar>betas T ! i - \<beta>\<bar> \<le> \<bar>betas T ! j - \<beta>\<bar>"
    and "\<forall>k<length (betas T). \<bar>betas T ! i - \<beta>\<bar> \<le> \<bar>betas T ! k - \<beta>\<bar>"
    and "\<forall>k<length (betas T). k \<noteq> i \<longrightarrow> \<bar>betas T ! j - \<beta>\<bar> \<le> \<bar>betas T ! k - \<beta>\<bar>"
    and "beta_interp T \<beta> =
           (if \<bar>betas T ! i - \<beta>\<bar> + \<bar>betas T ! j - \<beta>\<bar> = 0 then Inl InvalidValue
            else Inr \<lparr>p1 = \<bar>betas T ! j - \<beta>\<bar> / (\<bar>betas T ! i - \<beta>\<bar> + \<bar>betas T ! j - \<beta>\<bar>),
                      p2 = \<bar>betas T ! i - \<beta>\<bar> / (\<bar>betas T ! i - \<beta>\<bar> + \<bar>betas T ! j - \<beta>\<bar>),
                      f1 = functions' T ! i, f2 = functions' T ! j,
                      x1 = betas T ! i, x2 = betas T ! j\<rparr>)"
proof -
  define ds where "ds = map (\<lambda>b. \<bar>b - \<beta>\<bar>) (betas T)"
  have dlen: "length ds = length (betas T)"
    by (simp add: ds_def)
  have "2 \<le> length ds"
    using assms(1) dlen by simp
  then obtain i j where ij: "take 2 (argsort ds) = [i, j]" "i < length ds" "j < length ds"
    "i \<noteq> j" "ds ! i \<le> ds ! j" "\<forall>k<length ds. ds ! i \<le> ds ! k"
    "\<forall>k<length ds. k \<noteq> i \<longrightarrow> ds ! j \<le> ds ! k"
    by (rule argsort_first_two)
  have nth: "ds ! k = \<bar>betas T ! k - \<beta>\<bar>" if "k < length (betas T)" for k
    using that by (simp add: ds_def)
  have ilt: "i < length (betas T)" and jlt: "j < length (betas T)"
    using ij(2,3) dlen by simp_all
  have g: "py_get (functions' T) (int i) = Inr (functions' T ! i)"
    "py_get (functions' T) (int j) = Inr (functions' T ! j)"
    using ilt jlt assms(2) by (simp_all add: py_get_def py_index_def)
  have eq: "beta_interp T \<beta> =
      (if ds ! i + ds ! j = 0 then Inl InvalidValue
       else Inr \<lparr>p1 = ds ! j / (ds ! i + ds ! j), p2 = ds ! i / (ds ! i + ds ! j),
                 f1 = functions' T ! i, f2 = functions' T ! j,
                 x1 = betas T ! i, x2 = betas T ! j\<rparr>)"
    unfolding beta_interp_def Let_def ds_def [symmetric] ij(1) by (simp add: g)
  show ?thesis
  proof
    show "i < length (betas T)" "j < length (betas T)" "i \<noteq> j"
      using ilt jlt ij(4) by simp_all
    show "\<bar>betas T ! i - \<beta>\<bar> \<le> \<bar>betas T ! j - \<beta>\<bar>"
      using ij(5) nth [OF ilt] nth [OF jlt] by simp
    show "\<forall>k<length (betas T). \<bar>betas T ! i - \<beta>\<bar> \<le> \<bar>betas T ! k - \<beta>\<bar>"
      using ij(6) nth ilt dlen by metis
    show "\<forall>k<length (betas T). k \<noteq> i \<longrightarrow> \<bar>betas T ! j - \<beta>\<bar> \<le> \<bar>betas T ! k - \<beta>\<bar>"
      using ij(7) nth jlt dlen by metis
    show "beta_interp T \<beta> =
           (if \<bar>betas T ! i - \<beta>\<bar> + \<bar>betas T ! j - \<beta>\<bar> = 0 then Inl InvalidValue
            else Inr \<lparr>p1 = \<bar>betas T ! j - \<beta>\<bar> / (\<bar>betas T ! i - \<beta>\<bar> + \<bar>betas T ! j - \<beta>\<bar>),
                      p2 = \<bar>betas T ! i - \<beta>\<bar> / (\<bar>betas T ! i - \<beta>\<bar> + \<bar>betas T ! j - \<beta>\<bar>),
                      f1 = functions' T ! i, f2 = functions' T ! j,
                      x1 = betas T ! i, x2 = betas T ! j\<rparr>)"
      unfolding eq nth [OF ilt] nth [OF jlt] ..
  qed
qed

lemma map2_same: "map2 g (map h xs) (map k xs) = map (\<lambda>v. g (h v) (k v)) xs"
  by (induction xs) simp_all

lemma call_Ok:
  "call f xs = Inr a \<longleftrightarrow> (\<forall>v\<in>set xs. x_lo f \<le> v \<and> v \<le> x_hi f) \<and> a = map (curve f) xs"
proof -
  have "(\<exists>v\<in>set xs. v < x_lo f \<or> x_hi f < v) \<longleftrightarrow> \<not> (\<forall>v\<in>set xs. x_lo f \<le> v \<and> v \<le> x_hi f)"
    by (simp add: not_le)
  then show ?thesis
    unfolding call_def by auto
qed

lemma f_new_exact:
  assumes "p1 B = 1" and "p2 B = 0" and "call (f2 B) xs = Inr b"
  shows "f_new B xs = call (f1 B) xs"
proof (cases "call (f1 B) xs")
  case (Inl e)
  then show ?thesis by (simp add: f_new_def)
next
  case (Inr a)
  then have "a = map (curve (f1 B)) xs" by (simp add: call_Ok)
  moreover from assms(3) have "b = map (curve (f2 B)) xs" by (simp add: call_Ok)
  ultimately show ?thesis
    using Inr assms by (simp add: f_new_def map2_same)
qed

text \<open>
  C6. For every \<open>\<beta>\<close> and every set of at least two tables with pairwise distinct
  tabulated values (one file per value), \<open>beta_interp\<close> returns a blend of the tables
  \<open>i\<close> and \<open>j\<close> nearest to \<open>\<beta>\<close>, whose two weights are non-negative and sum
  to 1, the nearer table having the larger weight. When \<open>\<beta>\<close> equals a tabulated
  value, that table is the first one, with weight 1 against 0, and the blended function
  equals that table's interpolant at every argument that the other interpolant accepts.
\<close>

theorem beta_interp_weights:
  assumes "2 \<le> length (betas T)" and "length (functions' T) = length (betas T)"
    and "distinct (betas T)"
  shows "\<exists>B i j. beta_interp T \<beta> = Inr B
     \<and> i < length (betas T) \<and> j < length (betas T) \<and> i \<noteq> j
     \<and> x1 B = betas T ! i \<and> f1 B = functions' T ! i
     \<and> x2 B = betas T ! j \<and> f2 B = functions' T ! j
     \<and> (\<forall>k<length (betas T). \<bar>x1 B - \<beta>\<bar> \<le> \<bar>betas T ! k - \<beta>\<bar>)
     \<and> (\<forall>k<length (betas T). k \<noteq> i \<longrightarrow> \<bar>x2 B - \<beta>\<bar> \<le> \<bar>betas T ! k - \<beta>\<bar>)
     \<and> 0 \<le> p1 B \<and> 0 \<le> p2 B \<and> p1 B + p2 B = 1 \<and> p2 B \<le> p1 B
     \<and> (\<bar>x1 B - \<beta>\<bar> < \<bar>x2 B - \<beta>\<bar> \<longrightarrow> p2 B < p1 B)
     \<and> (\<beta> \<in> set (betas T) \<longrightarrow>
           x1 B = \<beta> \<and> p1 B = 1 \<and> p2 B = 0
           \<and> (\<forall>xs b. call (f2 B) xs = Inr b \<longrightarrow> f_new B xs = call (f1 B) xs))"
proof -
  from assms(1,2) obtain i j where ij: "i < length (betas T)" "j < length (betas T)" "i \<noteq> j"
    and le: "\<bar>betas T ! i - \<beta>\<bar> \<le> \<bar>betas T ! j - \<beta>\<bar>"
    and first: "\<forall>k<length (betas T). \<bar>betas T ! i - \<beta>\<bar> \<le> \<bar>betas T ! k - \<beta>\<bar>"
    and second: "\<forall>k<length (betas T). k \<noteq> i \<longrightarrow> \<bar>betas T ! j - \<beta>\<bar> \<le> \<bar>betas T ! k - \<beta>\<bar>"
    and eq: "beta_interp T \<beta> =
           (if \<bar>betas T ! i - \<beta>\<bar> + \<bar>betas T ! j - \<beta>\<bar> = 0 then Inl InvalidValue
            else Inr \<lparr>p1 = \<bar>betas T ! j - \<beta>\<bar> / (\<bar>betas T ! i - \<beta>\<bar> + \<bar>betas T ! j - \<beta>\<bar>),
                      p2 = \<bar>betas T ! i - \<beta>\<bar> / (\<bar>betas T ! i - \<beta>\<bar> + \<bar>betas T ! j - \<beta>\<bar>),
                      f1 = functions' T ! i, f2 = functions' T ! j,
                      x1 = betas T ! i, x2 = betas T ! j\<rparr>)"
    by (rule beta_interp_unfold)
  define d1 where "d1 = \<bar>betas T ! i - \<beta>\<bar>"
  define d2 where "d2 = \<bar>betas T ! j - \<beta>\<bar>"
  define B where "B = \<lparr>p1 = d2 / (d1 + d2), p2 = d1 / (d1 + d2),
                      f1 = functions' T ! i, f2 = functions' T ! j,
                      x1 = betas T ! i, x2 = betas T ! j\<rparr>"
  have "betas T ! i \<noteq> betas T ! j"
    using assms(3) ij by (simp add: nth_eq_iff_index_eq)
  then have "\<not> (d1 = 0 \<and> d2 = 0)"
    by (auto simp: d1_def d2_def)
  moreover have nn: "0 \<le> d1" "0 \<le> d2" "d1 \<le> d2"
    using le by (simp_all add: d1_def d2_def)
  ultimately have dpos: "0 < d1 + d2"
    by linarith
  have ok: "beta_interp T \<beta> = Inr B"
    using dpos unfolding eq B_def d1_def d2_def by simp
  have w: "0 \<le> p1 B" "0 \<le> p2 B" "p1 B + p2 B = 1" "p2 B \<le> p1 B"
    using dpos nn by (simp_all add: B_def add_divide_distrib [symmetric] divide_right_mono)
  have strict: "p2 B < p1 B" if "d1 < d2"
    using that dpos by (simp add: B_def divide_strict_right_mono)
  have exact: "x1 B = \<beta> \<and> p1 B = 1 \<and> p2 B = 0
           \<and> (\<forall>xs b. call (f2 B) xs = Inr b \<longrightarrow> f_new B xs = call (f1 B) xs)"
    if "\<beta> \<in> set (betas T)"
  proof -
    from that obtain k where k: "k < length (betas T)" "betas T ! k = \<beta>"
      by (auto simp: in_set_conv_nth)
    with first have "d1 \<le> 0"
      unfolding d1_def by fastforce
    with nn have z: "d1 = 0" by simp
    then have x: "betas T ! i = \<beta>"
      by (simp add: d1_def)
    have p: "p1 B = 1" "p2 B = 0"
      using z dpos by (simp_all add: B_def)
    show ?thesis
      using x p f_new_exact [OF p] by (simp add: B_def)
  qed
  have "beta_interp T \<beta> = Inr B
     \<and> i < length (betas T) \<and> j < length (betas T) \<and> i \<noteq> j
     \<and> x1 B = betas T ! i \<and> f1 B = functions' T ! i
     \<and> x2 B = betas T ! j \<and> f2 B = functions' T ! j
     \<and> (\<forall>k<length (betas T). \<bar>x1 B - \<beta>\<bar> \<le> \<bar>betas T ! k - \<beta>\<bar>)
     \<and> (\<forall>k<length (betas T). k \<noteq> i \<longrightarrow> \<bar>x2 B - \<beta>\<bar> \<le> \<bar>betas T ! k - \<beta>\<bar>)
     \<and> 0 \<le> p1 B \<and> 0 \<le> p2 B \<and> p1 B + p2 B = 1 \<and> p2 B \<le> p1 B
     \<and> (\<bar>x1 B - \<beta>\<bar> < \<bar>x2 B - \<beta>\<bar> \<longrightarrow> p2 B < p1 B)
     \<and> (\<beta> \<in> set (betas T) \<longrightarrow>
           x1 B = \<beta> \<and> p1 B = 1 \<and> p2 B = 0
           \<and> (\<forall>xs b. call (f2 B) xs = Inr b \<longrightarrow> f_new B xs = call (f1 B) xs))"
  proof (intro conjI)
    show "beta_interp T \<beta> = Inr B" by (rule ok)
    show "i < length (betas T)" "j < length (betas T)" "i \<noteq> j" by (rule ij)+
    show "x1 B = betas T ! i" "f1 B = functions' T ! i" "x2 B = betas T ! j"
      "f2 B = functions' T ! j" by (simp_all add: B_def)
    show "\<forall>k<length (betas T). \<bar>x1 B - \<beta>\<bar> \<le> \<bar>betas T ! k - \<beta>\<bar>"
      using first by (simp add: B_def)
    show "\<forall>k<length (betas T). k \<noteq> i \<longrightarrow> \<bar>x2 B - \<beta>\<bar> \<le> \<bar>betas T ! k - \<beta>\<bar>"
      using second by (simp add: B_def)
    show "0 \<le> p1 B" "0 \<le> p2 B" "p1 B + p2 B = 1" "p2 B \<le> p1 B" by (rule w)+
    show "\<bar>x1 B - \<beta>\<bar> < \<bar>x2 B - \<beta>\<bar> \<longrightarrow> p2 B < p1 B"
      using strict by (simp add: B_def d1_def d2_def)
    show "\<beta> \<in> set (betas T) \<longrightarrow>
           x1 B = \<beta> \<and> p1 B = 1 \<and> p2 B = 0
           \<and> (\<forall>xs b. call (f2 B) xs = Inr b \<longrightarrow> f_new B xs = call (f1 B) xs)"
      using exact by blast
  qed
  then show ?thesis by blast
qed

lemma T0_built: "dMdEdist_init kern0 files0 = Inr T0"
  by (simp add: dMdEdist_init_def files0_def T0_def build_function_def Let_def coarsen_def
      step_def py_slice_def cumsum_def py_max_def greatest_def)

lemma argsort_two: "argsort [a, b] = (if a \<le> b then [0, 1] else [1, 0])"
  by (simp add: argsort_def upt_conv_Cons)

lemma T0_exact: "beta_interp T0 (1 / 2) =
    Inr \<lparr>p1 = 1, p2 = 0, f1 = interp1d kern0 [0, 1] [0, 27 / 5],
         f2 = interp1d kern0 [0, 1] [0, 54 / 5], x1 = 1 / 2, x2 = 3 / 2\<rparr>"
  by (simp add: beta_interp_def T0_def Let_def argsort_two py_get_def py_index_def)

lemma T0_between: "beta_interp T0 1 =
    Inr \<lparr>p1 = 1 / 2, p2 = 1 / 2, f1 = interp1d kern0 [0, 1] [0, 27 / 5],
         f2 = interp1d kern0 [0, 1] [0, 54 / 5], x1 = 1 / 2, x2 = 3 / 2\<rparr>"
  by (simp add: beta_interp_def T0_def Let_def argsort_two py_get_def py_index_def)

lemma T0_spread: "energy_spread T0 1 3 = Inr [27 / 20, 27 / 4]"
  by (simp add: energy_spread_def T0_between x_set_def linspace_def Let_def upt_conv_Cons
      f_new_def call_def interp1d_def least_def greatest_def kern0_def)

theorem beta_interp_weights_witness:
  "2 \<le> length (betas T0) \<and> length (functions' T0) = length (betas T0) \<and> distinct (betas T0)
   \<and> 1 / 2 \<in> set (betas T0)
   \<and> (\<exists>B. beta_interp T0 (1 / 2) = Inr B \<and> x1 B = 1 / 2 \<and> p1 B = 1 \<and> p2 B = 0
          \<and> p1 B + p2 B = 1)"
proof -
  have h: "2 \<le> length (betas T0)" "length (functions' T0) = length (betas T0)"
    "distinct (betas T0)" "1 / 2 \<in> set (betas T0)"
    by (simp_all add: T0_def)
  from beta_interp_weights [OF h(1,2,3), of "1 / 2"] h show ?thesis
    by blast
qed

lemma py_get_in_set: "py_get xs i = Inr v \<Longrightarrow> v \<in> set xs"
  by (auto simp: py_get_def py_index_def Let_def split: if_splits)

lemma beta_interp_functions:
  "beta_interp T \<beta> = Inr B \<Longrightarrow> f1 B \<in> set (functions' T) \<and> f2 B \<in> set (functions' T)"
  by (auto simp: beta_interp_def Let_def split: list.splits sum.splits if_splits
      dest: py_get_in_set)

subsection \<open>Linear interpolation and the values of energy_spread\<close>

lemma searchsorted_le: "searchsorted ks v \<le> length ks"
  by (induction ks) auto

lemma searchsorted_below: "j < searchsorted ks v \<Longrightarrow> ks ! j < v"
proof (induction ks arbitrary: j)
  case Nil
  then show ?case by simp
next
  case (Cons k ks)
  then show ?case by (cases j) (auto split: if_splits)
qed

lemma searchsorted_at: "searchsorted ks v < length ks \<Longrightarrow> v \<le> ks ! searchsorted ks v"
  by (induction ks) auto

lemma searchsorted_all_below: "searchsorted ks v = length ks \<Longrightarrow> \<forall>k\<in>set ks. k < v"
  by (induction ks) (auto split: if_splits)

lemma convex_between:
  fixes a b t :: real
  assumes "0 \<le> t" and "t \<le> 1"
  shows "min a b \<le> (b - a) * t + a \<and> (b - a) * t + a \<le> max a b"
proof (cases "a \<le> b")
  case True
  have A: "0 \<le> (b - a) * t"
    using True assms by simp
  have "(b - a) * t \<le> (b - a) * 1"
    by (rule mult_left_mono) (use True assms in simp_all)
  then have B: "(b - a) * t \<le> b - a" by simp
  from A B True show ?thesis by linarith
next
  case False
  have A: "(b - a) * t \<le> 0"
    using False assms by (simp add: mult_nonpos_nonneg)
  have "(b - a) * 1 \<le> (b - a) * t"
    by (rule mult_left_mono_neg) (use False assms in simp_all)
  then have B: "b - a \<le> (b - a) * t" by simp
  from A B False show ?thesis by linarith
qed

lemma linear_between:
  assumes len: "length xs = length ys" and lo: "least xs < v" and hi: "v \<le> greatest xs"
    and ne: "xs \<noteq> []"
  shows "least ys \<le> linear xs ys v \<and> linear xs ys v \<le> greatest ys"
proof -
  define ks where "ks = knots xs ys"
  define kx where "kx = map fst ks"
  define i where "i = searchsorted kx v"
  have klen: "length ks = length xs"
    using len by (simp add: ks_def knots_def)
  have kne: "kx \<noteq> []"
    using ne klen by (auto simp: kx_def)
  have sorted: "sorted kx"
    unfolding kx_def ks_def knots_def by (rule sorted_sort_key)
  have "set kx = set (map fst (zip xs ys))"
    by (simp add: kx_def ks_def knots_def)
  also have "\<dots> = set xs"
    using len by (simp only: map_fst_zip)
  finally have setx: "set kx = set xs" .
  have sety: "snd ` set ks \<subseteq> set ys"
    by (auto simp: ks_def knots_def dest: set_zip_rightD)
  have first: "kx ! 0 = least xs"
  proof -
    have "Min (set kx) = kx ! 0"
    proof (rule Min_eqI)
      show "finite (set kx)" by simp
      show "kx ! 0 \<in> set kx" using kne by simp
      fix y assume "y \<in> set kx"
      then obtain j where "j < length kx" "y = kx ! j"
        by (auto simp: in_set_conv_nth)
      then show "kx ! 0 \<le> y"
        using sorted by (simp add: sorted_nth_mono)
    qed
    then show ?thesis
      using ne by (simp add: setx least_Min)
  qed
  have ipos: "0 < i"
  proof (rule ccontr)
    assume "\<not> 0 < i"
    then have "i = 0" by simp
    moreover have "i < length kx \<Longrightarrow> v \<le> kx ! i"
      unfolding i_def by (rule searchsorted_at)
    ultimately have "v \<le> kx ! 0"
      using kne by simp
    with lo first show False by simp
  qed
  have ilt: "i < length kx"
  proof (rule ccontr)
    assume "\<not> i < length kx"
    then have "i = length kx"
      using searchsorted_le [of kx v] by (simp add: i_def)
    then have "\<forall>k\<in>set kx. k < v"
      unfolding i_def by (rule searchsorted_all_below)
    moreover have "greatest xs \<in> set kx"
      using ne by (simp add: setx greatest_in)
    ultimately show False
      using hi by fastforce
  qed
  have below: "kx ! (i - 1) < v"
    using ipos by (simp add: i_def searchsorted_below)
  have above: "v \<le> kx ! i"
    using ilt unfolding i_def by (rule searchsorted_at)
  have clip: "min (max i 1) (length ks - 1) = i"
    using ipos ilt by (simp add: kx_def)
  define xl where "xl = fst (ks ! (i - 1))"
  define xh where "xh = fst (ks ! i)"
  define yl where "yl = snd (ks ! (i - 1))"
  define yh where "yh = snd (ks ! i)"
  have xs': "xl < v" "v \<le> xh"
    using below above ilt ipos by (simp_all add: xl_def xh_def kx_def)
  have val: "linear xs ys v = (yh - yl) / (xh - xl) * (v - xl) + yl"
    unfolding linear_def Let_def ks_def [symmetric] kx_def [symmetric] i_def [symmetric] clip
    by (simp add: xl_def xh_def yl_def yh_def)
  define t where "t = (v - xl) / (xh - xl)"
  have t: "0 \<le> t" "t \<le> 1"
    using xs' by (simp_all add: t_def)
  have val': "linear xs ys v = (yh - yl) * t + yl"
    by (simp add: val t_def)
  have "yl \<in> set ys" "yh \<in> set ys"
    using sety ilt ipos by (auto simp: yl_def yh_def kx_def)
  then have "least ys \<le> yl" "least ys \<le> yh" "yl \<le> greatest ys" "yh \<le> greatest ys"
    by (simp_all add: least_le greatest_ge)
  with convex_between [OF t, of yl yh] show ?thesis
    unfolding val' by linarith
qed

lemma length_cumsum_from: "length (cumsum_from acc vs) = length vs"
  by (induction vs arbitrary: acc) simp_all

lemma build_function_curve:
  assumes "build_function linear (line_a fl) (line_b fl) = Inr f" and "0 < v" and "v \<le> 1"
  shows "least (energy_knots fl) \<le> curve f v \<and> curve f v \<le> greatest (energy_knots fl)"
proof -
  from assms(1) obtain x y where xy: "retain (line_a fl) (line_b fl) = Inr (x, y)"
    by (auto simp: build_function_def split: sum.splits)
  define s where "s = rev (coarsen (length x) x @ [0])"
  define cs where "cs = cumsum (rev (coarsen (length x) y @ [0]))"
  define CDE where "CDE = map (\<lambda>c. c / greatest cs) cs"
  have ek: "energy_knots fl = s"
    by (simp add: energy_knots_def xy s_def)
  from assms(1) xy have f: "f = interp1d linear CDE s"
    by (auto simp: build_function_def Let_def py_max_def s_def cs_def CDE_def split: if_splits)
  have len: "length CDE = length s"
    by (simp add: CDE_def cs_def s_def cumsum_def length_cumsum_from coarsen_def)
  have ne: "CDE \<noteq> []"
    using len by (auto simp: s_def)
  from build_function_domain [OF assms(1)] have "x_lo f \<le> 0" "1 \<le> x_hi f"
    by simp_all
  then have dom: "least CDE < v" "v \<le> greatest CDE"
    using assms(2,3) by (simp_all add: f interp1d_def)
  from linear_between [OF len dom ne] show ?thesis
    by (simp add: f interp1d_def ek)
qed

lemma load_files_prefix:
  "load_files kern files T = Inr T' \<Longrightarrow> \<exists>fs. functions' T' = functions' T @ fs"
proof (induction files arbitrary: T)
  case Nil
  then show ?case by simp
next
  case (Cons fl files)
  from Cons.prems obtain f where
    rest: "load_files kern files
            \<lparr>betas = betas T @ [name_beta fl],
             masses = masses T @ [mass_token fl / 2],
             functions' = functions' T @ [f]\<rparr> = Inr T'"
    by (auto split: sum.splits)
  from Cons.IH [OF rest] show ?case by auto
qed

lemma load_files_built:
  assumes "load_files kern files T = Inr T'"
  shows "length (betas T') = length (betas T) + length files
     \<and> length (functions' T') = length (functions' T) + length files
     \<and> (\<forall>i<length files.
           build_function kern (line_a (files ! i)) (line_b (files ! i))
             = Inr (functions' T' ! (length (functions' T) + i)))"
  using assms
proof (induction files arbitrary: T)
  case Nil
  then show ?case by simp
next
  case (Cons fl files)
  from Cons.prems obtain f where f: "build_function kern (line_a fl) (line_b fl) = Inr f"
    and rest: "load_files kern files
            \<lparr>betas = betas T @ [name_beta fl],
             masses = masses T @ [mass_token fl / 2],
             functions' = functions' T @ [f]\<rparr> = Inr T'"
    by (auto split: sum.splits)
  note IH = Cons.IH [OF rest]
  have keep: "functions' T' ! length (functions' T) = f"
  proof -
    from load_files_prefix [OF rest] obtain fs where "functions' T' = (functions' T @ [f]) @ fs"
      by auto
    then show ?thesis by (simp add: nth_append)
  qed
  show ?case
  proof (intro conjI allI impI)
    show "length (betas T') = length (betas T) + length (fl # files)"
      using IH by simp
    show "length (functions' T') = length (functions' T) + length (fl # files)"
      using IH by simp
    fix i assume "i < length (fl # files)"
    then show "build_function kern (line_a ((fl # files) ! i)) (line_b ((fl # files) ! i))
             = Inr (functions' T' ! (length (functions' T) + i))"
      using IH f keep by (cases i) simp_all
  qed
qed

lemma x_set_Ok:
  assumes "1 \<le> nfrag"
  shows "\<exists>xs. x_set nfrag = Inr xs \<and> int (length xs) = nfrag - 1
           \<and> (\<forall>v\<in>set xs. 0 < v \<and> v < 1)"
proof (cases "nfrag - 1 = 1")
  case True
  then have "nfrag = 2" by simp
  then show ?thesis
    by (simp add: x_set_def linspace_def Let_def)
next
  case False
  define n where "n = real_of_int nfrag"
  define half where "half = 1 / n * (1 / 2)"
  define st where "st = (1 - half - half) / real_of_int (nfrag - 1 - 1)"
  have npos: "1 \<le> n"
    using assms by (simp add: n_def)
  have h: "0 < half" "half \<le> 1 / 2"
    using npos by (simp_all add: half_def field_simps)
  have eq: "x_set nfrag = Inr (map (\<lambda>i. half + real i * st) [0..<nat (nfrag - 1)])"
    using assms False by (simp add: x_set_def linspace_def Let_def half_def st_def n_def)
  have rng: "0 < half + real i * st \<and> half + real i * st < 1" if "i < nat (nfrag - 1)" for i
  proof -
    from that have big: "2 \<le> nfrag - 1"
      using False by linarith
    then have den: "0 < real_of_int (nfrag - 1 - 1)"
      by simp
    have stn: "0 \<le> st"
      using h den by (simp add: st_def)
    have "real i \<le> real_of_int (nfrag - 1 - 1)"
      using that by linarith
    then have "real i * st \<le> real_of_int (nfrag - 1 - 1) * st"
      using stn by (rule mult_right_mono)
    also have "\<dots> = 1 - half - half"
      using den by (simp add: st_def)
    finally have up: "half + real i * st \<le> 1 - half"
      by simp
    have "0 \<le> real i * st"
      using stn by simp
    with h up show ?thesis
      by linarith
  qed
  show ?thesis
    using rng assms by (auto simp: eq)
qed

lemma load_files_betas:
  "load_files kern files T = Inr T' \<Longrightarrow> betas T' = betas T @ map name_beta files"
proof (induction files arbitrary: T)
  case Nil
  then show ?case by simp
next
  case (Cons fl files)
  from Cons.prems obtain f where
    rest: "load_files kern files
            \<lparr>betas = betas T @ [name_beta fl],
             masses = masses T @ [mass_token fl / 2],
             functions' = functions' T @ [f]\<rparr> = Inr T'"
    by (auto split: sum.splits)
  from Cons.IH [OF rest] show ?case by simp
qed

lemma dMdEdist_init_built:
  assumes "dMdEdist_init kern files = Inr T"
  shows "betas T = map name_beta files" and "length (functions' T) = length files"
    and "\<forall>i<length files.
           build_function kern (line_a (files ! i)) (line_b (files ! i)) = Inr (functions' T ! i)"
proof -
  from assms have l: "load_files kern files \<lparr>betas = [], masses = [], functions' = []\<rparr> = Inr T"
    by (simp add: dMdEdist_init_def)
  from load_files_betas [OF l] show "betas T = map name_beta files" by simp
  from load_files_built [OF l] show "length (functions' T) = length files"
    and "\<forall>i<length files.
           build_function kern (line_a (files ! i)) (line_b (files ! i)) = Inr (functions' T ! i)"
    by simp_all
qed

lemma beta_interp_two:
  assumes "beta_interp T \<beta> = Inr B"
  shows "2 \<le> length (betas T)"
proof -
  define ds where "ds = map (\<lambda>b. \<bar>b - \<beta>\<bar>) (betas T)"
  from assms obtain i j where "take 2 (argsort ds) = [i, j]"
    unfolding beta_interp_def Let_def ds_def [symmetric]
    by (auto split: list.splits)
  then have "length (take 2 (argsort ds)) = 2"
    by simp
  then have "2 \<le> length (argsort ds)"
    by simp
  then show ?thesis
    by (simp add: argsort_def ds_def)
qed

lemma blend_between:
  fixes p q a b l u :: real
  assumes "0 \<le> p" "0 \<le> q" "p + q = 1" "l \<le> a" "a \<le> u" "l \<le> b" "b \<le> u"
  shows "l \<le> p * a + q * b \<and> p * a + q * b \<le> u"
proof -
  have "p * l \<le> p * a" "q * l \<le> q * b" "p * a \<le> p * u" "q * b \<le> q * u"
    using assms by (simp_all add: mult_left_mono)
  moreover have "p * l + q * l = l" "p * u + q * u = u"
    using assms(3) by (simp_all add: distrib_right [symmetric])
  ultimately show ?thesis by linarith
qed

lemma T1_built: "dMdEdist_init linear files0 = Inr T1"
  by (simp add: dMdEdist_init_def files0_def T1_def build_function_def Let_def coarsen_def
      step_def py_slice_def cumsum_def py_max_def greatest_def)

lemma T1_between: "beta_interp T1 1 =
    Inr \<lparr>p1 = 1 / 2, p2 = 1 / 2, f1 = interp1d linear [0, 1] [0, 27 / 5],
         f2 = interp1d linear [0, 1] [0, 54 / 5], x1 = 1 / 2, x2 = 3 / 2\<rparr>"
  by (simp add: beta_interp_def T1_def Let_def argsort_two py_get_def py_index_def)

lemma linear_two_knots: "linear [0, 1] [0, c] v = c * v"
  by (simp add: linear_def knots_def Let_def)

lemma T1_spread: "energy_spread T1 1 3 = Inr [27 / 20, 27 / 4]"
  by (simp add: energy_spread_def T1_between x_set_def linspace_def Let_def upt_conv_Cons
      f_new_def call_def interp1d_def least_def greatest_def linear_two_knots)

lemma files0_knots: "energy_knots (files0 ! 0) = [0, 27 / 5] \<and> energy_knots (files0 ! 1) = [0, 54 / 5]"
  by (simp add: energy_knots_def files0_def coarsen_def step_def py_slice_def)

text \<open>
  C3. For tables built by the class body (with scipy's linear interpolation), every
  \<open>\<beta>\<close> for which the blend is defined and every \<open>Nfrag \<ge> 1\<close>,
  \<open>energy_spread\<close> returns, raising nothing, exactly \<open>Nfrag - 1\<close> values. Each
  value is the blend at a sample point that lies in the domain of both bracketing
  interpolants, strictly above their least knot, and each value lies within the range
  of energies that the two bracketing tables cover: between the least and the greatest
  energy at the knots of the two tables.
\<close>

theorem energy_spread_count:
  assumes "dMdEdist_init linear files = Inr T" and "beta_interp T \<beta> = Inr B"
    and "1 \<le> nfrag"
  shows "\<exists>xs vs i j. x_set nfrag = Inr xs \<and> energy_spread T \<beta> nfrag = Inr vs
     \<and> int (length vs) = nfrag - 1
     \<and> vs = map (\<lambda>v. p1 B * curve (f1 B) v + p2 B * curve (f2 B) v) xs
     \<and> (\<forall>v\<in>set xs. x_lo (f1 B) < v \<and> v \<le> x_hi (f1 B)
                     \<and> x_lo (f2 B) < v \<and> v \<le> x_hi (f2 B))
     \<and> i < length files \<and> j < length files
     \<and> x1 B = name_beta (files ! i) \<and> x2 B = name_beta (files ! j)
     \<and> build_function linear (line_a (files ! i)) (line_b (files ! i)) = Inr (f1 B)
     \<and> build_function linear (line_a (files ! j)) (line_b (files ! j)) = Inr (f2 B)
     \<and> (\<forall>e\<in>set vs.
           min (least (energy_knots (files ! i))) (least (energy_knots (files ! j))) \<le> e
           \<and> e \<le> max (greatest (energy_knots (files ! i))) (greatest (energy_knots (files ! j))))"
proof -
  note built = dMdEdist_init_built [OF assms(1)]
  have len: "length (betas T) = length files"
    by (simp add: built(1))
  have two: "2 \<le> length (betas T)"
    using assms(2) by (rule beta_interp_two)
  have same: "length (functions' T) = length (betas T)"
    by (simp add: built(2) len)
  from two same obtain i j where ij: "i < length (betas T)" "j < length (betas T)"
    and eq: "beta_interp T \<beta> =
           (if \<bar>betas T ! i - \<beta>\<bar> + \<bar>betas T ! j - \<beta>\<bar> = 0 then Inl InvalidValue
            else Inr \<lparr>p1 = \<bar>betas T ! j - \<beta>\<bar> / (\<bar>betas T ! i - \<beta>\<bar> + \<bar>betas T ! j - \<beta>\<bar>),
                      p2 = \<bar>betas T ! i - \<beta>\<bar> / (\<bar>betas T ! i - \<beta>\<bar> + \<bar>betas T ! j - \<beta>\<bar>),
                      f1 = functions' T ! i, f2 = functions' T ! j,
                      x1 = betas T ! i, x2 = betas T ! j\<rparr>)"
    by (rule beta_interp_unfold [where \<beta> = \<beta>]) blast
  define d1 where "d1 = \<bar>betas T ! i - \<beta>\<bar>"
  define d2 where "d2 = \<bar>betas T ! j - \<beta>\<bar>"
  from assms(2) eq have dnz: "d1 + d2 \<noteq> 0"
    and B: "B = \<lparr>p1 = d2 / (d1 + d2), p2 = d1 / (d1 + d2),
                 f1 = functions' T ! i, f2 = functions' T ! j,
                 x1 = betas T ! i, x2 = betas T ! j\<rparr>"
    unfolding d1_def d2_def by (auto split: if_splits)
  have nn: "0 \<le> d1" "0 \<le> d2"
    by (simp_all add: d1_def d2_def)
  with dnz have dpos: "0 < d1 + d2"
    by linarith
  have w: "0 \<le> p1 B" "0 \<le> p2 B" "p1 B + p2 B = 1"
    using dpos nn by (simp_all add: B add_divide_distrib [symmetric])
  have fi: "i < length files" and fj: "j < length files"
    using ij len by simp_all
  have bi: "build_function linear (line_a (files ! i)) (line_b (files ! i)) = Inr (f1 B)"
    and bj: "build_function linear (line_a (files ! j)) (line_b (files ! j)) = Inr (f2 B)"
    using built(3) fi fj by (simp_all add: B)
  have xi: "x1 B = name_beta (files ! i)" and xj: "x2 B = name_beta (files ! j)"
    using fi fj by (simp_all add: B built(1))
  from x_set_Ok [OF assms(3)] obtain xs where xs: "x_set nfrag = Inr xs"
    "int (length xs) = nfrag - 1" "\<forall>v\<in>set xs. 0 < v \<and> v < 1"
    by blast
  from build_function_domain [OF bi] build_function_domain [OF bj]
  have dom: "x_lo (f1 B) \<le> 0" "1 \<le> x_hi (f1 B)" "x_lo (f2 B) \<le> 0" "1 \<le> x_hi (f2 B)"
    by simp_all
  have cover: "\<forall>v\<in>set xs. x_lo (f1 B) < v \<and> v \<le> x_hi (f1 B)
                     \<and> x_lo (f2 B) < v \<and> v \<le> x_hi (f2 B)"
  proof
    fix v assume "v \<in> set xs"
    with xs(3) have "0 < v" "v < 1" by blast+
    with dom show "x_lo (f1 B) < v \<and> v \<le> x_hi (f1 B) \<and> x_lo (f2 B) < v \<and> v \<le> x_hi (f2 B)"
      by linarith
  qed
  then have "\<forall>v\<in>set xs. x_lo (f1 B) \<le> v \<and> v \<le> x_hi (f1 B)"
    "\<forall>v\<in>set xs. x_lo (f2 B) \<le> v \<and> v \<le> x_hi (f2 B)"
    by fastforce+
  then have c: "call (f1 B) xs = Inr (map (curve (f1 B)) xs)"
    "call (f2 B) xs = Inr (map (curve (f2 B)) xs)"
    by (simp_all add: call_Ok)
  define vs where "vs = map (\<lambda>v. p1 B * curve (f1 B) v + p2 B * curve (f2 B) v) xs"
  have es: "energy_spread T \<beta> nfrag = Inr vs"
    by (simp add: energy_spread_def assms(2) xs(1) f_new_def c map2_same vs_def)
  let ?l = "min (least (energy_knots (files ! i))) (least (energy_knots (files ! j)))"
  let ?u = "max (greatest (energy_knots (files ! i))) (greatest (energy_knots (files ! j)))"
  have range: "\<forall>e\<in>set vs. ?l \<le> e \<and> e \<le> ?u"
  proof
    fix e assume "e \<in> set vs"
    then obtain v where v: "v \<in> set xs" "e = p1 B * curve (f1 B) v + p2 B * curve (f2 B) v"
      by (auto simp: vs_def)
    with xs(3) have "0 < v" "v \<le> 1" by fastforce+
    from build_function_curve [OF bi this] build_function_curve [OF bj this]
    have "?l \<le> curve (f1 B) v" "curve (f1 B) v \<le> ?u" "?l \<le> curve (f2 B) v" "curve (f2 B) v \<le> ?u"
      by linarith+
    from blend_between [OF w this] show "?l \<le> e \<and> e \<le> ?u"
      by (simp add: v(2))
  qed
  have "x_set nfrag = Inr xs \<and> energy_spread T \<beta> nfrag = Inr vs
     \<and> int (length vs) = nfrag - 1
     \<and> vs = map (\<lambda>v. p1 B * curve (f1 B) v + p2 B * curve (f2 B) v) xs
     \<and> (\<forall>v\<in>set xs. x_lo (f1 B) < v \<and> v \<le> x_hi (f1 B)
                     \<and> x_lo (f2 B) < v \<and> v \<le> x_hi (f2 B))
     \<and> i < length files \<and> j < length files
     \<and> x1 B = name_beta (files ! i) \<and> x2 B = name_beta (files ! j)
     \<and> build_function linear (line_a (files ! i)) (line_b (files ! i)) = Inr (f1 B)
     \<and> build_function linear (line_a (files ! j)) (line_b (files ! j)) = Inr (f2 B)
     \<and> (\<forall>e\<in>set vs. ?l \<le> e \<and> e \<le> ?u)"
    using xs(1,2) es cover fi fj xi xj bi bj range by (simp add: vs_def)
  then show ?thesis by blast
qed

theorem energy_spread_count_witness:
  "dMdEdist_init linear files0 = Inr T1 \<and> (\<exists>B. beta_interp T1 1 = Inr B) \<and> (1::int) \<le> 3
   \<and> x_set 3 = Inr [1 / 6, 5 / 6]
   \<and> energy_spread T1 1 3 = Inr [27 / 20, 27 / 4]
   \<and> int (length [27 / 20, 27 / 4 :: real]) = 3 - 1
   \<and> energy_knots (files0 ! 0) = [0, 27 / 5] \<and> energy_knots (files0 ! 1) = [0, 54 / 5]
   \<and> (0::real) \<le> 27 / 20 \<and> (27 / 20 :: real) \<le> 54 / 5
   \<and> (0::real) \<le> 27 / 4 \<and> (27 / 4 :: real) \<le> 54 / 5"
proof -
  have "(1::int) \<le> 3" by simp
  from energy_spread_count [OF T1_built T1_between this] T1_built T1_between T1_spread
    files0_knots
  show ?thesis
    by (simp add: x_set_def linspace_def Let_def upt_conv_Cons)
qed

subsection \<open>A sampler that returns one value too few\<close>

text \<open>
  \<open>star_disrupt\<close> reads one speed per fragment. With a sampler that returns
  \<open>Nfrag - 1\<close> energies, as the function \<open>energy_spread\<close> of the module does, the
  read of \<open>vels[frag]\<close> for the last fragment raises IndexError, after the per-star
  lists have grown and before \<open>sfindices\<close> is appended to.
\<close>

lemma short_sampler_raises:
  "star_disrupt (E0\<lparr>dmde_energy_spread := (\<lambda>_ n. Inr (replicate (nat (n - 1)) 0))\<rparr>) U0 D0
      (init 1 1, new_simulation U0)
   = Raised IndexError
      ((init 1 1)\<lparr>star_masses := [1], star_radii := [1], tidal_radii := [1],
                   orbital_vels := [8000000]\<rparr>,
       new_simulation U0)"
  by (simp add: star_disrupt_def E0_def U0_def D0_def init_def new_simulation_def Let_def
     rads_example star_direc_of_def py_sqrt_def nrg_scale_of_def vels_of_def vel_direc_example
     m_hole_def py_get_def py_index_def)

end
